theory Spec2Isabelle
  imports Main "HOL-Library.Sublist"
begin

section \<open>The spreadsheet indexer of trust\_me.py: DatabaseManager\<close>

text \<open>
  The development embeds the class \<open>DatabaseManager\<close> of \<open>src/trust_me/trust_me.py\<close>:
  \<open>update_index\<close>, \<open>needs_update\<close>, \<open>index_file\<close> and \<open>search\<close>, together with the part
  of SQLite and of Python's \<open>sqlite3\<close> and \<open>openpyxl\<close> modules that these four methods
  rely on. A Python \<open>str\<close> is a \<open>string\<close>; one \<open>char\<close> stands for one character.
\<close>

subsection \<open>Exceptions, printed lines and progress labels\<close>

text \<open>
  The statements that \<open>index_file\<close> sends to the store, in the order of the source
  (lines 145, 147, 148, 150, 174 and 180). A value \<open>Some s\<close> of type \<open>step option\<close> names
  the statement at which the store raises during one call of \<open>index_file\<close>; \<open>None\<close> is a
  call in which the store raises nowhere.
\<close>

datatype step = Begin | DeleteFiles | DeleteContent | InsertFile | InsertContent | Commit

datatype error =
    OSError                  \<comment> \<open>\<open>os.path.getmtime\<close> failed\<close>
  | WorkbookError            \<comment> \<open>\<open>openpyxl.load_workbook\<close> failed\<close>
  | SheetError               \<comment> \<open>reading one sheet failed\<close>
  | OperationalError step    \<comment> \<open>\<open>sqlite3.OperationalError\<close> raised by that statement\<close>
  | IntegrityError           \<comment> \<open>the UNIQUE constraint on \<open>files.file_path\<close>\<close>
  | TypeError                \<comment> \<open>Python's \<open>TypeError\<close>\<close>
  | PatternError             \<comment> \<open>\<open>sqlite3.OperationalError\<close>: LIKE or GLOB pattern too complex\<close>

text \<open>The three \<open>print\<close> calls of lines 121, 171 and 189, with their arguments.\<close>

datatype message =
    ProcessFileError string error
  | ProcessSheetError string error
  | IndexFileError string error

text \<open>
  The two label texts handed to the progress callback (lines 117 and 124): the first carries
  \<open>os.path.basename(file_path)\<close>, the second is the constant completion text.
\<close>

datatype label = Indexing string | IndexDone

subsection \<open>Timestamps\<close>

text \<open>
  A naive \<open>datetime\<close>, as \<open>datetime.now()\<close> and \<open>datetime.fromtimestamp\<close> return it.
  Python orders two of them field by field.
\<close>

record datetime =
  year :: nat
  month :: nat
  day :: nat
  hour :: nat
  minute :: nat
  second :: nat
  microsecond :: nat

fun lex_less :: "nat list \<Rightarrow> nat list \<Rightarrow> bool" where
  "lex_less [] [] = False"
| "lex_less [] (y # ys) = True"
| "lex_less (x # xs) [] = False"
| "lex_less (x # xs) (y # ys) = (x < y \<or> (x = y \<and> lex_less xs ys))"

definition datetime_less :: "datetime \<Rightarrow> datetime \<Rightarrow> bool" where
  "datetime_less a b =
     lex_less [year a, month a, day a, hour a, minute a, second a, microsecond a]
              [year b, month b, day b, hour b, minute b, second b, microsecond b]"

definition str_less :: "string \<Rightarrow> string \<Rightarrow> bool" where
  "str_less a b = lex_less (map of_char a) (map of_char b)"

text \<open>Decimal digits of a natural number, and \<open>str.zfill\<close>.\<close>

fun str_nat :: "nat \<Rightarrow> string" where
  "str_nat n = (if n < 10 then [''0123456789'' ! n]
                else str_nat (n div 10) @ [''0123456789'' ! (n mod 10)])"

declare str_nat.simps [simp del]

definition zfill :: "nat \<Rightarrow> string \<Rightarrow> string" where
  "zfill width s = replicate (width - length s) (CHR ''0'') @ s"

text \<open>
  The module \<open>sqlite3\<close> binds a \<open>datetime\<close> parameter through its default adapter,
  \<open>val.isoformat(" ")\<close>: the column receives the text \<open>YYYY-MM-DD HH:MM:SS\<close>, followed by
  \<open>.ffffff\<close> when the microseconds are not zero.
\<close>

definition isoformat :: "datetime \<Rightarrow> string" where
  "isoformat d =
     zfill 4 (str_nat (year d)) @ ''-'' @ zfill 2 (str_nat (month d)) @ ''-'' @
     zfill 2 (str_nat (day d)) @ '' '' @ zfill 2 (str_nat (hour d)) @ '':'' @
     zfill 2 (str_nat (minute d)) @ '':'' @ zfill 2 (str_nat (second d)) @
     (if microsecond d = 0 then [] else ''.'' @ zfill 6 (str_nat (microsecond d)))"

text \<open>
  The two kinds of Python value that meet in the comparison of line 134. Python's \<open><\<close>
  orders two strings and two datetimes, and raises \<open>TypeError\<close> for one of each.
\<close>

datatype pyval = PyStr string | PyDatetime datetime

fun py_lt :: "pyval \<Rightarrow> pyval \<Rightarrow> error + bool" where
  "py_lt (PyStr a) (PyStr b) = Inr (str_less a b)"
| "py_lt (PyDatetime a) (PyDatetime b) = Inr (datetime_less a b)"
| "py_lt (PyStr a) (PyDatetime b) = Inl TypeError"
| "py_lt (PyDatetime a) (PyStr b) = Inl TypeError"

subsection \<open>The two tables\<close>

text \<open>
  The rows of \<open>files\<close> and of \<open>content_index\<close> (lines 77 to 94). Both timestamp columns hold
  the text written by the adapter above.
\<close>

record file_row =
  f_id :: nat
  f_path :: string
  f_last_modified :: string
  f_last_indexed :: string

record content_row =
  c_id :: nat
  c_file_id :: nat
  c_sheet_name :: string
  c_cell_coordinate :: string
  c_content :: string

record db =
  files :: "file_row list"
  content_index :: "content_row list"

text \<open>
  An \<open>INTEGER PRIMARY KEY\<close> column that an \<open>INSERT\<close> leaves out receives one more than the
  largest key of the table, and 1 in an empty table. (SQLite departs from this rule only at
  the key \<open>2^63 - 1\<close>, which no table of this program reaches; keys are natural numbers
  here.)
\<close>

definition next_rowid :: "nat list \<Rightarrow> nat" where
  "next_rowid ids = Suc (fold max ids 0)"

text \<open>\<open>DELETE FROM files WHERE file_path = ?\<close>\<close>

definition delete_files :: "string \<Rightarrow> db \<Rightarrow> db" where
  "delete_files file_path d = d\<lparr>files := filter (\<lambda>r. f_path r \<noteq> file_path) (files d)\<rparr>"

text \<open>\<open>SELECT id FROM files WHERE file_path = ?\<close>\<close>

definition select_file_ids :: "db \<Rightarrow> string \<Rightarrow> nat list" where
  "select_file_ids d file_path = map f_id (filter (\<lambda>r. f_path r = file_path) (files d))"

text \<open>
  \<open>DELETE FROM content_index WHERE file_id IN (SELECT id FROM files WHERE file_path = ?)\<close>:
  the subquery reads the table \<open>files\<close> as it is when this statement runs.
\<close>

definition delete_content :: "string \<Rightarrow> db \<Rightarrow> db" where
  "delete_content file_path d =
     d\<lparr>content_index :=
         filter (\<lambda>c. c_file_id c \<notin> set (select_file_ids d file_path)) (content_index d)\<rparr>"

text \<open>
  \<open>INSERT INTO files (file_path, last_modified, last_indexed) VALUES (?, ?, ?)\<close>, returning
  the new table and \<open>cursor.lastrowid\<close>. The column \<open>file_path\<close> is \<open>UNIQUE\<close>.
\<close>

definition insert_file :: "string \<Rightarrow> string \<Rightarrow> string \<Rightarrow> db \<Rightarrow> error + (db \<times> nat)" where
  "insert_file file_path modified indexed d =
     (if file_path \<in> set (map f_path (files d)) then Inl IntegrityError
      else let i = next_rowid (map f_id (files d))
           in Inr (d\<lparr>files := files d @
                       [\<lparr>f_id = i, f_path = file_path, f_last_modified = modified,
                         f_last_indexed = indexed\<rparr>]\<rparr>, i))"

text \<open>
  \<open>INSERT INTO content_index (file_id, sheet_name, cell_coordinate, content) VALUES (?, ?, ?, ?)\<close>
  for one tuple, and \<open>executemany\<close> for a list of them.
\<close>

definition insert_content_row :: "nat \<times> string \<times> string \<times> string \<Rightarrow> db \<Rightarrow> db" where
  "insert_content_row v d =
     (case v of (file_id, sheet, coordinate, text) \<Rightarrow>
        d\<lparr>content_index := content_index d @
            [\<lparr>c_id = next_rowid (map c_id (content_index d)), c_file_id = file_id,
              c_sheet_name = sheet, c_cell_coordinate = coordinate, c_content = text\<rparr>]\<rparr>)"

definition insert_content :: "(nat \<times> string \<times> string \<times> string) list \<Rightarrow> db \<Rightarrow> db" where
  "insert_content content_values d = fold insert_content_row content_values d"

subsection \<open>Workbooks\<close>

text \<open>
  What \<open>cell.value\<close> can be in a workbook opened with \<open>data_only=True\<close>: \<open>None\<close> for an
  empty cell, a string, an integer, a boolean, or another object (a float, a date, a time),
  which is given by its truth value and by its \<open>str()\<close>.
\<close>

datatype cell_value = VNone | VStr string | VInt int | VBool bool | VOther bool string

text \<open>Python's truth value of a cell value, as \<open>if cell.value:\<close> takes it (line 163).\<close>

fun truthy :: "cell_value \<Rightarrow> bool" where
  "truthy VNone = False"
| "truthy (VStr s) = (s \<noteq> [])"
| "truthy (VInt i) = (i \<noteq> 0)"
| "truthy (VBool b) = b"
| "truthy (VOther t s) = t"

text \<open>\<open>str(cell.value)\<close> (line 168).\<close>

fun py_str :: "cell_value \<Rightarrow> string" where
  "py_str VNone = ''None''"
| "py_str (VStr s) = s"
| "py_str (VInt i) = (if i < 0 then ''-'' @ str_nat (nat (- i)) else str_nat (nat i))"
| "py_str (VBool b) = (if b then ''True'' else ''False'')"
| "py_str (VOther t s) = s"

text \<open>
  One sheet as the loop of lines 158 to 172 sees it: its name, the rows of cells
  (coordinate and value) that \<open>wb[sheet_name]\<close> and \<open>sheet.iter_rows()\<close> deliver, and the
  exception, if any, that one of the two raises after these rows. Sheet titles are unique in
  a workbook, so \<open>wb[sheet_name]\<close> for a name of \<open>wb.sheetnames\<close> is the sheet of that name.
\<close>

record sheet =
  sheet_name :: string
  sheet_rows :: "(string \<times> cell_value) list list"
  sheet_error :: "error option"

type_synonym workbook = "sheet list"

text \<open>The tuples that one sheet appends to \<open>content_values\<close>, without the file id.\<close>

definition sheet_entries :: "sheet \<Rightarrow> (string \<times> string \<times> string) list" where
  "sheet_entries s =
     map (\<lambda>cell. (sheet_name s, fst cell, py_str (snd cell)))
         (filter (\<lambda>cell. truthy (snd cell)) (concat (sheet_rows s)))"

definition extraction :: "workbook \<Rightarrow> (string \<times> string \<times> string) list" where
  "extraction wb = concat (map sheet_entries wb)"

text \<open>The lines printed by the handler of line 170, one for each sheet that raised.\<close>

definition sheet_messages :: "workbook \<Rightarrow> message list" where
  "sheet_messages wb =
     concat (map (\<lambda>s. case sheet_error s of None \<Rightarrow> []
                      | Some e \<Rightarrow> [ProcessSheetError (sheet_name s) e]) wb)"

subsection \<open>The connection and the world around it\<close>

text \<open>
  The state that the methods read and write: the committed contents of \<open>file_index.db\<close>,
  the open transaction of the connection in use (\<open>None\<close> when the connection is in
  autocommit mode), the workbooks that are open, the lines of \<open>index_errors.log\<close> (path and
  exception; the wall-clock prefix of a line is left out), the printed lines, and the calls
  made to the progress callback.
\<close>

record world =
  committed :: db
  pending :: "db option"
  open_workbooks :: "string list"
  error_log :: "(string \<times> error) list"
  console :: "message list"
  progress :: "(nat \<times> label) list"

text \<open>What a statement of the connection reads.\<close>

definition view :: "world \<Rightarrow> db" where
  "view w = (case pending w of None \<Rightarrow> committed w | Some d \<Rightarrow> d)"

text \<open>
  \<open>cursor.execute('BEGIN TRANSACTION')\<close>: SQLite refuses a transaction within a transaction.
\<close>

definition begin_transaction :: "step option \<Rightarrow> world \<Rightarrow> error + world" where
  "begin_transaction fault w =
     (if fault = Some Begin then Inl (OperationalError Begin)
      else case pending w of
             Some d \<Rightarrow> Inl (OperationalError Begin)
           | None \<Rightarrow> Inr (w\<lparr>pending := Some (committed w)\<rparr>))"

text \<open>
  A \<open>DELETE\<close> or \<open>INSERT\<close> writes into the open transaction (the module opens one before
  such a statement when none is open).
\<close>

definition execute :: "(db \<Rightarrow> db) \<Rightarrow> world \<Rightarrow> world" where
  "execute stmt w = w\<lparr>pending := Some (stmt (view w))\<rparr>"

definition commit :: "world \<Rightarrow> world" where
  "commit w = (case pending w of None \<Rightarrow> w | Some d \<Rightarrow> w\<lparr>committed := d, pending := None\<rparr>)"

definition rollback :: "world \<Rightarrow> world" where
  "rollback w = w\<lparr>pending := None\<rparr>"

definition wb_close :: "string \<Rightarrow> world \<Rightarrow> world" where
  "wb_close file_path w = w\<lparr>open_workbooks := remove1 file_path (open_workbooks w)\<rparr>"

text \<open>
  The environment of a run: what \<open>os.walk(folder_path)\<close> yields (directory path and file
  names), the modification time of a path as line 112 computes it, what
  \<open>openpyxl.load_workbook\<close> returns for a path, the statement at which the store raises
  while candidate number \<open>i\<close> is indexed, and whether a progress callback was passed.
\<close>

record env =
  walk :: "(string \<times> string list) list"
  getmtime :: "string \<Rightarrow> error + datetime"
  load_workbook :: "string \<Rightarrow> error + workbook"
  store_fault :: "nat \<Rightarrow> step option"
  has_callback :: bool

subsection \<open>needs\_update\<close>

text \<open>
  Lines 128 to 134. \<open>fetchone()\<close> is the first selected row. The connection is opened
  without \<open>detect_types\<close> (line 73), so the column comes back as the \<open>str\<close> that was stored.
\<close>

definition needs_update :: "world \<Rightarrow> string \<Rightarrow> datetime \<Rightarrow> error + bool" where
  "needs_update w file_path modified_time =
     (case map f_last_modified (filter (\<lambda>r. f_path r = file_path) (files (view w))) of
        [] \<Rightarrow> Inr True
      | stored # rest \<Rightarrow> py_lt (PyStr stored) (PyDatetime modified_time))"

subsection \<open>index\_file\<close>

text \<open>The handler of lines 188 to 191: one printed line and one line of the error log.\<close>

definition log_failure :: "string \<Rightarrow> error \<Rightarrow> world \<Rightarrow> world" where
  "log_failure file_path e w =
     w\<lparr>console := console w @ [IndexFileError file_path e],
       error_log := error_log w @ [(file_path, e)]\<rparr>"

text \<open>
  Lines 147 to 180, the body of the inner \<open>try\<close>: the result is the exception that left the
  body, if any, and the world at that moment.
\<close>

definition replace_file ::
  "step option \<Rightarrow> string \<Rightarrow> datetime \<Rightarrow> datetime \<Rightarrow> workbook \<Rightarrow> world \<Rightarrow> error option \<times> world" where
  "replace_file fault file_path modified_time current_time wb w0 =
     (if fault = Some DeleteFiles then (Some (OperationalError DeleteFiles), w0)
      else let w1 = execute (delete_files file_path) w0 in
      if fault = Some DeleteContent then (Some (OperationalError DeleteContent), w1)
      else let w2 = execute (delete_content file_path) w1 in
      if fault = Some InsertFile then (Some (OperationalError InsertFile), w2)
      else case insert_file file_path (isoformat modified_time) (isoformat current_time)
                  (view w2) of
             Inl e \<Rightarrow> (Some e, w2)
           | Inr (d3, file_id) \<Rightarrow>
               let w3 = w2\<lparr>pending := Some d3, console := console w2 @ sheet_messages wb\<rparr>;
                   content_values = map (\<lambda>t. (file_id, t)) (extraction wb)
               in if fault = Some InsertContent then (Some (OperationalError InsertContent), w3)
                  else let w4 = execute (insert_content content_values) w3 in
                  if fault = Some Commit then (Some (OperationalError Commit), w4)
                  else (None, commit w4))"

text \<open>Lines 136 to 191.\<close>

definition index_file ::
  "env \<Rightarrow> step option \<Rightarrow> world \<Rightarrow> string \<Rightarrow> datetime \<Rightarrow> datetime \<Rightarrow> world" where
  "index_file e fault w file_path modified_time current_time =
     (case load_workbook e file_path of
        Inl err \<Rightarrow> log_failure file_path err w
      | Inr wb \<Rightarrow>
          let w1 = w\<lparr>open_workbooks := file_path # open_workbooks w\<rparr> in
          (case begin_transaction fault w1 of
             Inl err \<Rightarrow> log_failure file_path err w1
           | Inr w2 \<Rightarrow>
               (case replace_file fault file_path modified_time current_time wb w2 of
                  (None, w3) \<Rightarrow> wb_close file_path w3
                | (Some err, w3) \<Rightarrow>
                    log_failure file_path err (wb_close file_path (rollback w3)))))"

subsection \<open>update\_index\<close>

text \<open>The file-name test of line 103 and \<open>os.path.join\<close> and \<open>os.path.basename\<close> (POSIX).\<close>

definition is_candidate :: "string \<Rightarrow> bool" where
  "is_candidate filename =
     ((suffix ''.xlsx'' filename \<or> suffix ''.xlsm'' filename) \<and> \<not> prefix ''~$'' filename)"

definition path_join :: "string \<Rightarrow> string \<Rightarrow> string" where
  "path_join dirpath filename =
     (if prefix ''/'' filename then filename
      else if dirpath = [] \<or> suffix ''/'' dirpath then dirpath @ filename
      else dirpath @ ''/'' @ filename)"

definition basename :: "string \<Rightarrow> string" where
  "basename p = rev (takeWhile (\<lambda>c. c \<noteq> CHR ''/'') (rev p))"

text \<open>Lines 100 to 104: the list \<open>excel_files\<close>.\<close>

definition excel_files :: "env \<Rightarrow> string list" where
  "excel_files e =
     concat (map (\<lambda>entry. map (path_join (fst entry)) (filter is_candidate (snd entry)))
                 (walk e))"

text \<open>
  The percentage of line 116, \<open>int((i + 1) * 100 / total_files)\<close>. The quotient is a float
  between 0 and 100 and \<open>int\<close> truncates it; for every list of files that fits in memory
  this is the integer quotient.
\<close>

definition percent :: "nat \<Rightarrow> nat \<Rightarrow> nat" where
  "percent i total_files = ((i + 1) * 100) div total_files"

definition report :: "env \<Rightarrow> nat \<times> label \<Rightarrow> world \<Rightarrow> world" where
  "report e call w = (if has_callback e then w\<lparr>progress := progress w @ [call]\<rparr> else w)"

text \<open>
  Lines 111 to 121, the body of the loop for candidate \<open>i\<close>. Every exception of the body is
  caught by line 120 and printed.
\<close>

definition process_file :: "env \<Rightarrow> datetime \<Rightarrow> nat \<Rightarrow> nat \<times> string \<Rightarrow> world \<Rightarrow> world" where
  "process_file e current_time total_files candidate w =
     (case candidate of (i, file_path) \<Rightarrow>
        (case getmtime e file_path of
           Inl err \<Rightarrow> w\<lparr>console := console w @ [ProcessFileError file_path err]\<rparr>
         | Inr file_modified_time \<Rightarrow>
             (case needs_update w file_path file_modified_time of
                Inl err \<Rightarrow> w\<lparr>console := console w @ [ProcessFileError file_path err]\<rparr>
              | Inr False \<Rightarrow> w
              | Inr True \<Rightarrow>
                  index_file e (store_fault e i)
                    (report e (percent i total_files, Indexing (basename file_path)) w)
                    file_path file_modified_time current_time)))"

text \<open>
  Lines 96 to 126. \<open>get_connection\<close> opens a connection of its own, with no transaction
  open, and \<open>conn.close()\<close> drops a transaction that is still open.
\<close>

definition update_index :: "env \<Rightarrow> datetime \<Rightarrow> world \<Rightarrow> world" where
  "update_index e current_time w =
     (let files_found = excel_files e;
          w1 = fold (process_file e current_time (length files_found))
                    (enumerate 0 files_found) (w\<lparr>pending := None\<rparr>)
      in (report e (100, IndexDone) w1)\<lparr>pending := None\<rparr>)"

subsection \<open>search\<close>

text \<open>ASCII lower case, the only case folding of SQLite's built-in \<open>LIKE\<close>.\<close>

definition lower :: "char \<Rightarrow> char" where
  "lower c =
     (case map_of (zip ''ABCDEFGHIJKLMNOPQRSTUVWXYZ'' ''abcdefghijklmnopqrstuvwxyz'') c of
        None \<Rightarrow> c
      | Some l \<Rightarrow> l)"

text \<open>
  The comparison that \<open>LIKE\<close> makes without an \<open>ESCAPE\<close> clause (SQLite's
  \<open>patternCompare\<close>), on a pattern and a text that have been read: \<open>%\<close> matches any run
  of characters, \<open>_\<close> matches one character, any other character matches itself up to
  ASCII case.
\<close>

fun pattern_compare :: "string \<Rightarrow> string \<Rightarrow> bool" where
  "pattern_compare [] s = (s = [])"
| "pattern_compare (p # ps) [] = (p = CHR ''%'' \<and> pattern_compare ps [])"
| "pattern_compare (p # ps) (c # cs) =
     (if p = CHR ''%'' then pattern_compare ps (c # cs) \<or> pattern_compare (p # ps) cs
      else (p = CHR ''_'' \<or> lower p = lower c) \<and> pattern_compare ps cs)"

text \<open>
  SQLite's function behind \<open>text LIKE pattern\<close> receives both arguments in UTF-8. It raises
  the error \<open>LIKE or GLOB pattern too complex\<close> when the pattern has more bytes than the limit
  \<open>SQLITE_MAX_LIKE_PATTERN_LENGTH\<close>, which is 50000 unless SQLite was built otherwise.
  Below the limit it reads the pattern and the text as C strings, each one up to its first
  character U+0000, and compares what it has read. A character below U+0080 is one byte, a
  \<open>char\<close> from U+0080 on is two.
\<close>

definition c_str :: "string \<Rightarrow> string" where
  "c_str s = takeWhile (\<lambda>c. c \<noteq> CHR 0x00) s"

definition utf8_length :: "string \<Rightarrow> nat" where
  "utf8_length s = sum_list (map (\<lambda>c. if (of_char c :: nat) < 128 then 1 else 2) s)"

definition like_pattern_limit :: nat where
  "like_pattern_limit = 50000"

definition like :: "string \<Rightarrow> string \<Rightarrow> error + bool" where
  "like pattern txt =
     (if like_pattern_limit < utf8_length pattern then Inl PatternError
      else Inr (pattern_compare (c_str pattern) (c_str txt)))"

text \<open>
  The query of lines 198 to 203, as a nested loop over \<open>content_index\<close> and \<open>files\<close>. The
  \<open>WHERE\<close> clause is evaluated on the rows of \<open>content_index\<close>; an error of \<open>LIKE\<close> on
  one of them is the error of the query.
\<close>

definition select_like ::
  "db \<Rightarrow> string \<Rightarrow> error + (string \<times> string \<times> string \<times> string) list" where
  "select_like d pattern =
     (if list_ex (\<lambda>ci. isl (like pattern (c_content ci))) (content_index d)
      then Inl PatternError
      else Inr (concat
        (map (\<lambda>ci. map (\<lambda>f. (f_path f, c_sheet_name ci, c_cell_coordinate ci, c_content ci))
                       (filter (\<lambda>f. c_file_id ci = f_id f) (files d)))
             (filter (\<lambda>ci. like pattern (c_content ci) = Inr True) (content_index d)))))"

text \<open>
  Lines 194 to 207. The connection of \<open>search\<close> is its own and reads the committed rows;
  \<open>store_error\<close> is the \<open>sqlite3.Error\<close>, if any, raised while connecting. An error of
  the query is a \<open>sqlite3.Error\<close> as well, and line 205 turns it into the empty result.
\<close>

definition search :: "error option \<Rightarrow> world \<Rightarrow> string \<Rightarrow> (string \<times> string \<times> string \<times> string) list" where
  "search store_error w query =
     (case store_error of
        Some err \<Rightarrow> []
      | None \<Rightarrow>
          (case select_like (committed w) (''%'' @ query @ ''%'') of
             Inl err \<Rightarrow> []
           | Inr rows \<Rightarrow> rows))"

subsection \<open>Notions used in the statements\<close>

text \<open>A FileRecord exists for a path.\<close>

definition has_record :: "db \<Rightarrow> string \<Rightarrow> bool" where
  "has_record d file_path = (file_path \<in> set (map f_path (files d)))"

text \<open>
  The ContentEntry rows owned by a path, that is, the rows of \<open>content_index\<close> whose
  \<open>file_id\<close> is the id of a row of \<open>files\<close> with that path, and their entries (sheet name,
  cell coordinate, content).
\<close>

definition rows_of :: "db \<Rightarrow> string \<Rightarrow> content_row list" where
  "rows_of d file_path =
     filter (\<lambda>c. c_file_id c \<in> set (select_file_ids d file_path)) (content_index d)"

definition entry :: "content_row \<Rightarrow> string \<times> string \<times> string" where
  "entry c = (c_sheet_name c, c_cell_coordinate c, c_content c)"

definition entries_of :: "db \<Rightarrow> string \<Rightarrow> (string \<times> string \<times> string) list" where
  "entries_of d file_path = map entry (rows_of d file_path)"

text \<open>Every row of \<open>content_index\<close> refers to a row of \<open>files\<close>.\<close>

definition no_orphans :: "db \<Rightarrow> bool" where
  "no_orphans d = list_all (\<lambda>c. c_file_id c \<in> set (map f_id (files d))) (content_index d)"

text \<open>
  The committed tables after the statements of \<open>index_file\<close> have all run for a path whose
  new extraction is \<open>entries\<close>.
\<close>

definition replaced ::
  "string \<Rightarrow> string \<Rightarrow> string \<Rightarrow> (string \<times> string \<times> string) list \<Rightarrow> db \<Rightarrow> db" where
  "replaced file_path modified indexed entries d =
     (let d1 = delete_files file_path d; i = next_rowid (map f_id (files d1))
      in insert_content (map (Pair i) entries)
           (d1\<lparr>files := files d1 @
                 [\<lparr>f_id = i, f_path = file_path, f_last_modified = modified,
                   f_last_indexed = indexed\<rparr>]\<rparr>))"

text \<open>
  A candidate that a run leaves alone or fails on: its modification time cannot be read, or
  it has a FileRecord, or its workbook cannot be opened, or the store raises while it is
  indexed.
\<close>

definition settled :: "env \<Rightarrow> db \<Rightarrow> nat \<times> string \<Rightarrow> bool" where
  "settled e d candidate =
     (isl (getmtime e (snd candidate)) \<or> has_record d (snd candidate) \<or>
      isl (load_workbook e (snd candidate)) \<or> store_fault e (fst candidate) \<noteq> None)"

text \<open>
  The calls of the progress callback that the loop body makes for one candidate in a given
  world: one call when the change detector answers that the candidate needs indexing, none
  otherwise.
\<close>

definition callback_calls :: "env \<Rightarrow> nat \<Rightarrow> nat \<times> string \<Rightarrow> world \<Rightarrow> (nat \<times> label) list" where
  "callback_calls e total_files candidate w =
     (case getmtime e (snd candidate) of
        Inl err \<Rightarrow> []
      | Inr file_modified_time \<Rightarrow>
          if needs_update w (snd candidate) file_modified_time = Inr True
          then [(percent (fst candidate) total_files, Indexing (basename (snd candidate)))]
          else [])"

text \<open>The lines that a list of candidates adds to the error log when the store never raises.\<close>

definition load_failures :: "env \<Rightarrow> string list \<Rightarrow> (string \<times> error) list" where
  "load_failures e paths =
     concat (map (\<lambda>p. case load_workbook e p of Inl err \<Rightarrow> [(p, err)] | Inr wb \<Rightarrow> []) paths)"

text \<open>
  A query without the characters that \<open>LIKE\<close> does not take for themselves, which are the
  two wildcards and U+0000, and a query of ASCII letters only.
\<close>

definition plain :: "string \<Rightarrow> bool" where
  "plain q = list_all (\<lambda>c. c \<noteq> CHR ''%'' \<and> c \<noteq> CHR ''_'' \<and> c \<noteq> CHR 0x00) q"

definition ascii_letters :: "string \<Rightarrow> bool" where
  "ascii_letters q =
     list_all (\<lambda>c. c \<in> set (''ABCDEFGHIJKLMNOPQRSTUVWXYZ'' @ ''abcdefghijklmnopqrstuvwxyz''))
       q"

text \<open>The row that \<open>search\<close> returns for a row of \<open>content_index\<close> joined to a row of \<open>files\<close>.\<close>

definition result_row :: "file_row \<Rightarrow> content_row \<Rightarrow> string \<times> string \<times> string \<times> string" where
  "result_row f c = (f_path f, c_sheet_name c, c_cell_coordinate c, c_content c)"

subsection \<open>Concrete inputs\<close>

text \<open>
  The scenario of the specification: a root with \<open>fileA.xlsx\<close>, whose sheet \<open>Sheet1\<close> has
  \<open>Invoice 123\<close> in cell A1, and an unreadable \<open>fileB.xlsm\<close>.
\<close>

definition time_a :: datetime where
  "time_a = \<lparr>year = 2024, month = 3, day = 1, hour = 9, minute = 0, second = 0,
             microsecond = 0\<rparr>"

definition time_b :: datetime where
  "time_b = \<lparr>year = 2024, month = 3, day = 2, hour = 9, minute = 0, second = 0,
             microsecond = 0\<rparr>"

definition time_now :: datetime where
  "time_now = \<lparr>year = 2024, month = 3, day = 3, hour = 12, minute = 30, second = 0,
               microsecond = 250000\<rparr>"

definition invoice_book :: workbook where
  "invoice_book =
     [\<lparr>sheet_name = ''Sheet1'', sheet_rows = [[(''A1'', VStr ''Invoice 123'')]],
       sheet_error = None\<rparr>]"

definition revised_book :: workbook where
  "revised_book =
     [\<lparr>sheet_name = ''Sheet1'', sheet_rows = [[(''A1'', VStr ''Invoice 456'')]],
       sheet_error = None\<rparr>]"

definition zero_book :: workbook where
  "zero_book =
     [\<lparr>sheet_name = ''Sheet1'', sheet_rows = [[(''A1'', VInt 0), (''B1'', VStr ''total'')]],
       sheet_error = None\<rparr>]"

definition root_env :: env where
  "root_env =
     \<lparr>walk = [(''/root'', [''fileA.xlsx'', ''fileB.xlsm''])],
      getmtime = (\<lambda>p. Inr time_a),
      load_workbook = (\<lambda>p. if p = ''/root/fileA.xlsx'' then Inr invoice_book
                            else Inl WorkbookError),
      store_fault = (\<lambda>i. None),
      has_callback = True\<rparr>"

text \<open>The same root after \<open>fileA.xlsx\<close> was edited, and a root whose document holds a zero.\<close>

definition revised_env :: env where
  "revised_env =
     \<lparr>walk = [(''/root'', [''fileA.xlsx'', ''fileB.xlsm''])],
      getmtime = (\<lambda>p. Inr time_b),
      load_workbook = (\<lambda>p. if p = ''/root/fileA.xlsx'' then Inr revised_book
                            else Inl WorkbookError),
      store_fault = (\<lambda>i. None),
      has_callback = True\<rparr>"

definition zero_env :: env where
  "zero_env =
     \<lparr>walk = [(''/root'', [''fileA.xlsx''])],
      getmtime = (\<lambda>p. Inr time_a),
      load_workbook = (\<lambda>p. Inr zero_book),
      store_fault = (\<lambda>i. None),
      has_callback = True\<rparr>"

text \<open>The first root again, with a store that raises at every \<open>COMMIT\<close>.\<close>

definition failing_env :: env where
  "failing_env = root_env\<lparr>store_fault := (\<lambda>i. Some Commit)\<rparr>"

text \<open>A new store, and the store in which \<open>fileA.xlsx\<close> is indexed.\<close>

definition fresh :: world where
  "fresh = \<lparr>committed = \<lparr>files = [], content_index = []\<rparr>, pending = None,
            open_workbooks = [], error_log = [], console = [], progress = []\<rparr>"

definition invoice_file :: file_row where
  "invoice_file =
     \<lparr>f_id = 1, f_path = ''/root/fileA.xlsx'', f_last_modified = isoformat time_a,
      f_last_indexed = isoformat time_a\<rparr>"

definition invoice_row :: content_row where
  "invoice_row =
     \<lparr>c_id = 1, c_file_id = 1, c_sheet_name = ''Sheet1'', c_cell_coordinate = ''A1'',
      c_content = ''Invoice 123''\<rparr>"

definition indexed :: world where
  "indexed =
     \<lparr>committed = \<lparr>files = [invoice_file], content_index = [invoice_row]\<rparr>,
      pending = None, open_workbooks = [], error_log = [], console = [], progress = []\<rparr>"

text \<open>
  A store whose only entry is a text of 49999 capital letters, and the query of as many small
  letters.
\<close>

definition long_query :: string where
  "long_query = replicate 49999 (CHR ''a'')"

definition long_row :: content_row where
  "long_row =
     \<lparr>c_id = 1, c_file_id = 1, c_sheet_name = ''Sheet1'', c_cell_coordinate = ''A1'',
      c_content = replicate 49999 (CHR ''A'')\<rparr>"

definition long_store :: world where
  "long_store =
     \<lparr>committed = \<lparr>files = [invoice_file], content_index = [long_row]\<rparr>,
      pending = None, open_workbooks = [], error_log = [], console = [], progress = []\<rparr>"

text \<open>A root whose only document, \<open>fileA.xlsx\<close>, has become unreadable.\<close>

definition broken_env :: env where
  "broken_env =
     \<lparr>walk = [(''/root'', [''fileA.xlsx''])],
      getmtime = (\<lambda>p. Inr time_b),
      load_workbook = (\<lambda>p. Inl WorkbookError),
      store_fault = (\<lambda>i. None),
      has_callback = True\<rparr>"

section \<open>Properties\<close>

subsection \<open>The statements of index\_file\<close>

lemma view_autocommit: "pending w = None \<Longrightarrow> view w = committed w"
  by (simp add: view_def)

lemma delete_content_after_delete_files:
  "delete_content p (delete_files p d) = delete_files p d"
  by (simp add: delete_content_def delete_files_def select_file_ids_def)

lemma insert_file_after_delete_files:
  "insert_file p m t (delete_files p d) =
     Inr ((delete_files p d)\<lparr>files := files (delete_files p d) @
            [\<lparr>f_id = next_rowid (map f_id (files (delete_files p d))), f_path = p,
              f_last_modified = m, f_last_indexed = t\<rparr>]\<rparr>,
          next_rowid (map f_id (files (delete_files p d))))"
  by (auto simp add: insert_file_def delete_files_def Let_def)

lemma index_file_load_failed:
  "load_workbook e p = Inl err \<Longrightarrow> index_file e fault w p m t = log_failure p err w"
  by (simp add: index_file_def)

lemma replace_file_fault:
  assumes "s \<noteq> Begin"
  shows "\<exists>w'. replace_file (Some s) p m t wb w0 = (Some (OperationalError s), w')
              \<and> committed w' = committed w0 \<and> open_workbooks w' = open_workbooks w0
              \<and> error_log w' = error_log w0 \<and> progress w' = progress w0"
  using assms
  by (cases s) (simp_all add: replace_file_def Let_def execute_def view_def
        delete_content_after_delete_files insert_file_after_delete_files)

lemma replace_file_ok:
  assumes "pending w0 = Some d0"
  shows "replace_file None p m t wb w0 =
     (None, w0\<lparr>committed := replaced p (isoformat m) (isoformat t) (extraction wb) d0,
               pending := None, console := console w0 @ sheet_messages wb\<rparr>)"
  using assms
  by (simp add: replace_file_def Let_def execute_def view_def commit_def replaced_def
        delete_content_after_delete_files insert_file_after_delete_files)

lemma index_file_ok:
  assumes "pending w = None" "load_workbook e p = Inr wb"
  shows "index_file e None w p m t =
     w\<lparr>committed := replaced p (isoformat m) (isoformat t) (extraction wb) (committed w),
       console := console w @ sheet_messages wb\<rparr>"
  using assms
  by (simp add: index_file_def begin_transaction_def replace_file_ok [where ?d0.0 = "committed w"]
        wb_close_def)

lemma index_file_begin_failed:
  assumes "load_workbook e p = Inr wb" "fault = Some Begin \<or> pending w \<noteq> None"
  shows "index_file e fault w p m t =
     log_failure p (OperationalError Begin) (w\<lparr>open_workbooks := p # open_workbooks w\<rparr>)"
  using assms
  by (auto simp add: index_file_def begin_transaction_def Let_def)

lemma index_file_fault:
  assumes "pending w = None" "load_workbook e p = Inr wb" "s \<noteq> Begin"
  shows "committed (index_file e (Some s) w p m t) = committed w
       \<and> pending (index_file e (Some s) w p m t) = None
       \<and> open_workbooks (index_file e (Some s) w p m t) = open_workbooks w
       \<and> error_log (index_file e (Some s) w p m t) = error_log w @ [(p, OperationalError s)]
       \<and> progress (index_file e (Some s) w p m t) = progress w"
proof -
  let ?w2 = "w\<lparr>open_workbooks := p # open_workbooks w, pending := Some (committed w)\<rparr>"
  obtain w' where r: "replace_file (Some s) p m t wb ?w2 = (Some (OperationalError s), w')"
    and c: "committed w' = committed ?w2" "open_workbooks w' = open_workbooks ?w2"
      "error_log w' = error_log ?w2" "progress w' = progress ?w2"
    using replace_file_fault [OF assms(3)] by blast
  show ?thesis
    using assms r c
    by (simp add: index_file_def begin_transaction_def wb_close_def rollback_def log_failure_def
          Let_def)
qed

lemma index_file_failed:
  assumes "pending w = None" "fault \<noteq> None \<or> isl (load_workbook e p)"
  shows "committed (index_file e fault w p m t) = committed w
       \<and> pending (index_file e fault w p m t) = None
       \<and> progress (index_file e fault w p m t) = progress w"
proof (cases "load_workbook e p")
  case (Inl err)
  then show ?thesis using assms(1) by (simp add: index_file_load_failed log_failure_def)
next
  case (Inr wb)
  with assms(2) obtain s where s: "fault = Some s" by auto
  show ?thesis
  proof (cases "s = Begin")
    case True
    then show ?thesis
      using assms(1) s Inr by (simp add: index_file_begin_failed log_failure_def)
  next
    case False
    then show ?thesis
      using index_file_fault [OF assms(1) Inr False] s by simp
  qed
qed

lemma open_workbooks_replace_file:
  "open_workbooks (snd (replace_file fault p m t wb w0)) = open_workbooks w0"
  by (simp add: replace_file_def Let_def execute_def commit_def
        split: sum.splits prod.splits option.splits)

lemma index_file_closes_workbook:
  assumes "pending w = None" "fault \<noteq> Some Begin"
  shows "open_workbooks (index_file e fault w p m t) = open_workbooks w"
proof (cases "load_workbook e p")
  case (Inl err)
  then show ?thesis by (simp add: index_file_def log_failure_def)
next
  case (Inr wb)
  let ?w2 = "w\<lparr>open_workbooks := p # open_workbooks w, pending := Some (committed w)\<rparr>"
  obtain r w3 where r: "replace_file fault p m t wb ?w2 = (r, w3)"
    by (cases "replace_file fault p m t wb ?w2")
  from open_workbooks_replace_file [of fault p m t wb ?w2] r
  have "open_workbooks w3 = p # open_workbooks w" by simp
  with Inr assms r show ?thesis
    by (cases r)
      (simp_all add: index_file_def begin_transaction_def log_failure_def wb_close_def
         rollback_def)
qed

subsection \<open>The first index of a path\<close>

lemma files_insert_content: "files (insert_content vs d) = files d"
  unfolding insert_content_def
  by (induction vs arbitrary: d) (simp_all add: insert_content_row_def split: prod.splits)

lemma files_replaced:
  "files (replaced p m t es d) =
     filter (\<lambda>r. f_path r \<noteq> p) (files d) @
     [\<lparr>f_id = next_rowid (map f_id (filter (\<lambda>r. f_path r \<noteq> p) (files d))), f_path = p,
       f_last_modified = m, f_last_indexed = t\<rparr>]"
  by (simp add: replaced_def Let_def files_insert_content delete_files_def)

lemma has_record_replaced: "has_record (replaced p m t es d) q = (q = p \<or> has_record d q)"
  by (auto simp add: has_record_def files_replaced)

lemma fold_max_ge: "a \<le> fold max xs (a::nat)"
proof (induction xs arbitrary: a)
  case Nil
  then show ?case by simp
next
  case (Cons x xs)
  have "max x a \<le> fold max xs (max x a)" by (rule Cons.IH)
  then have "a \<le> fold max xs (max x a)" by linarith
  then show ?case by simp
qed

lemma fold_max_member: "x \<in> set xs \<Longrightarrow> x \<le> fold max xs (a::nat)"
proof (induction xs arbitrary: a)
  case Nil
  then show ?case by simp
next
  case (Cons y ys)
  show ?case
  proof (cases "x = y")
    case True
    have "max y a \<le> fold max ys (max y a)" by (rule fold_max_ge)
    then have "y \<le> fold max ys (max y a)" by linarith
    with True show ?thesis by simp
  next
    case False
    with Cons.prems have "x \<in> set ys" by simp
    from Cons.IH [OF this] show ?thesis by simp
  qed
qed

lemma next_rowid_fresh: "next_rowid ids \<notin> set ids"
proof
  assume "next_rowid ids \<in> set ids"
  from fold_max_member [OF this, of 0] show False by (simp add: next_rowid_def)
qed


lemma insert_content_row_rows:
  "\<exists>row. content_index (insert_content_row v d) = content_index d @ [row]
        \<and> (c_file_id row, entry row) = v"
proof -
  obtain i s c x where v: "v = (i, s, c, x)" by (cases v) auto
  let ?row = "\<lparr>c_id = next_rowid (map c_id (content_index d)), c_file_id = i,
               c_sheet_name = s, c_cell_coordinate = c, c_content = x\<rparr>"
  have "content_index (insert_content_row v d) = content_index d @ [?row]
        \<and> (c_file_id ?row, entry ?row) = v"
    by (simp add: v insert_content_row_def entry_def)
  then show ?thesis by (rule exI)
qed

lemma insert_content_rows:
  "\<exists>rows. content_index (insert_content vs d) = content_index d @ rows
        \<and> map (\<lambda>c. (c_file_id c, entry c)) rows = vs"
  unfolding insert_content_def
proof (induction vs arbitrary: d)
  case Nil
  then show ?case by simp
next
  case (Cons v vs)
  from Cons.IH [of "insert_content_row v d"]
  obtain rows where r: "content_index (fold insert_content_row vs (insert_content_row v d))
      = content_index (insert_content_row v d) @ rows"
    and r2: "map (\<lambda>c. (c_file_id c, entry c)) rows = vs"
    by (elim exE conjE)
  from insert_content_row_rows [of v d]
  obtain row where w: "content_index (insert_content_row v d) = content_index d @ [row]"
    and w2: "(c_file_id row, entry row) = v"
    by (elim exE conjE)
  from r r2 w w2 have "content_index (fold insert_content_row (v # vs) d) = content_index d @ (row # rows)
      \<and> map (\<lambda>c. (c_file_id c, entry c)) (row # rows) = v # vs" by simp
  then show ?case by (rule exI)
qed


lemma map_pair_split:
  "map (\<lambda>c. (f c, g c)) rows = map (Pair i) es \<Longrightarrow> map g rows = es \<and> list_all (\<lambda>c. f c = i) rows"
  by (induction rows arbitrary: es) auto

lemma files_replaced_new:
  assumes "\<not> has_record d p"
  shows "files (replaced p m t es d) =
           files d @ [\<lparr>f_id = next_rowid (map f_id (files d)), f_path = p,
                       f_last_modified = m, f_last_indexed = t\<rparr>]"
proof -
  from assms have "filter (\<lambda>r. f_path r \<noteq> p) (files d) = files d"
    by (auto simp add: has_record_def filter_id_conv)
  then show ?thesis by (simp add: files_replaced)
qed

lemma content_replaced_new:
  assumes "\<not> has_record d p"
  shows "\<exists>rows. content_index (replaced p m t es d) = content_index d @ rows
           \<and> map entry rows = es
           \<and> list_all (\<lambda>c. c_file_id c = next_rowid (map f_id (files d))) rows"
proof -
  from assms have f: "filter (\<lambda>r. f_path r \<noteq> p) (files d) = files d"
    by (auto simp add: has_record_def filter_id_conv)
  let ?i = "next_rowid (map f_id (files d))"
  let ?d1 = "d\<lparr>files := files d @
                 [\<lparr>f_id = ?i, f_path = p, f_last_modified = m, f_last_indexed = t\<rparr>]\<rparr>"
  from insert_content_rows [of "map (Pair ?i) es" ?d1]
  obtain rows where r: "content_index (insert_content (map (Pair ?i) es) ?d1)
       = content_index ?d1 @ rows"
    and r2: "map (\<lambda>c. (c_file_id c, entry c)) rows = map (Pair ?i) es"
    by (elim exE conjE)
  have "replaced p m t es d = insert_content (map (Pair ?i) es) ?d1"
    using f by (simp add: replaced_def Let_def delete_files_def)
  with r have "content_index (replaced p m t es d) = content_index d @ rows" by simp
  with map_pair_split [OF r2]
  have "content_index (replaced p m t es d) = content_index d @ rows
           \<and> map entry rows = es \<and> list_all (\<lambda>c. c_file_id c = ?i) rows" by simp
  then show ?thesis by (rule exI)
qed

lemma content_replaced_keeps_rows:
  "prefix (content_index d) (content_index (replaced p m t es d))"
proof -
  let ?i = "next_rowid (map f_id (files (delete_files p d)))"
  let ?d1 = "(delete_files p d)\<lparr>files := files (delete_files p d) @
                 [\<lparr>f_id = ?i, f_path = p, f_last_modified = m, f_last_indexed = t\<rparr>]\<rparr>"
  from insert_content_rows [of "map (Pair ?i) es" ?d1]
  obtain rows where "content_index (insert_content (map (Pair ?i) es) ?d1)
       = content_index ?d1 @ rows"
    by (elim exE conjE)
  then have "content_index (replaced p m t es d) = content_index d @ rows"
    by (simp add: replaced_def Let_def delete_files_def)
  then show ?thesis by simp
qed

lemma index_file_keeps_content_rows:
  assumes "pending w = None" "load_workbook e p = Inr wb"
  shows "prefix (content_index (committed w))
           (content_index (committed (index_file e None w p m t)))"
  by (simp add: index_file_ok [OF assms] content_replaced_keeps_rows)

lemma extraction_other_sheets:
  "extraction (before @ s # after) = extraction before @ sheet_entries s @ extraction after"
  by (simp add: extraction_def)

lemma select_file_ids_replaced_new:
  assumes "\<not> has_record d p"
  shows "select_file_ids (replaced p m t es d) q =
           (if q = p then [next_rowid (map f_id (files d))] else select_file_ids d q)"
proof -
  from assms have "filter (\<lambda>r. f_path r = p) (files d) = []"
    by (auto simp add: has_record_def filter_empty_conv)
  then show ?thesis
    by (simp add: select_file_ids_def files_replaced_new [OF assms])
qed

lemma select_file_ids_subset: "set (select_file_ids d q) \<subseteq> set (map f_id (files d))"
  by (auto simp add: select_file_ids_def)

lemma rows_of_replaced_other:
  assumes "\<not> has_record d p" "q \<noteq> p"
  shows "rows_of (replaced p m t es d) q = rows_of d q"
proof -
  let ?i = "next_rowid (map f_id (files d))"
  from content_replaced_new [OF assms(1), of m t es]
  obtain rows where r: "content_index (replaced p m t es d) = content_index d @ rows"
    and a: "list_all (\<lambda>c. c_file_id c = ?i) rows"
    by (elim exE conjE)
  have "?i \<notin> set (select_file_ids d q)"
    using next_rowid_fresh [of "map f_id (files d)"] select_file_ids_subset [of d q] by blast
  with a have "filter (\<lambda>c. c_file_id c \<in> set (select_file_ids d q)) rows = []"
    by (auto simp add: filter_empty_conv list_all_iff)
  with r assms(2) show ?thesis
    by (simp add: rows_of_def select_file_ids_replaced_new [OF assms(1)])
qed

lemma entries_of_replaced_new:
  assumes "\<not> has_record d p" "no_orphans d"
  shows "entries_of (replaced p m t es d) p = es"
proof -
  let ?i = "next_rowid (map f_id (files d))"
  from content_replaced_new [OF assms(1), of m t es]
  obtain rows where r: "content_index (replaced p m t es d) = content_index d @ rows"
    and e: "map entry rows = es"
    and a: "list_all (\<lambda>c. c_file_id c = ?i) rows"
    by (elim exE conjE)
  have "\<forall>c\<in>set (content_index d). c_file_id c \<noteq> ?i"
  proof
    fix c
    assume "c \<in> set (content_index d)"
    with assms(2) have "c_file_id c \<in> set (map f_id (files d))"
      by (simp add: no_orphans_def list_all_iff)
    with next_rowid_fresh [of "map f_id (files d)"] show "c_file_id c \<noteq> ?i"
      by metis
  qed
  then have old: "filter (\<lambda>c. c_file_id c = ?i) (content_index d) = []"
    by (simp add: filter_empty_conv)
  from a have new: "filter (\<lambda>c. c_file_id c = ?i) rows = rows"
    by (simp add: filter_id_conv list_all_iff)
  from r e old new show ?thesis
    by (simp add: entries_of_def rows_of_def select_file_ids_replaced_new [OF assms(1)])
qed

lemma no_orphans_replaced_new:
  assumes "\<not> has_record d p" "no_orphans d"
  shows "no_orphans (replaced p m t es d)"
proof -
  let ?i = "next_rowid (map f_id (files d))"
  from content_replaced_new [OF assms(1), of m t es]
  obtain rows where r: "content_index (replaced p m t es d) = content_index d @ rows"
    and a: "list_all (\<lambda>c. c_file_id c = ?i) rows"
    by (elim exE conjE)
  from r a assms(2) show ?thesis
    by (auto simp add: no_orphans_def list_all_iff files_replaced_new [OF assms(1)])
qed

subsection \<open>The loop body\<close>

lemma needs_update_no_record:
  assumes "\<not> has_record (view w) p"
  shows "needs_update w p m = Inr True"
proof -
  from assms have "filter (\<lambda>r. f_path r = p) (files (view w)) = []"
    by (auto simp add: has_record_def filter_empty_conv)
  then show ?thesis by (simp add: needs_update_def)
qed

lemma needs_update_record:
  assumes "has_record (view w) p"
  shows "needs_update w p m = Inl TypeError"
proof -
  from assms have "filter (\<lambda>r. f_path r = p) (files (view w)) \<noteq> []"
    by (auto simp add: has_record_def filter_empty_conv)
  then obtain r rs where "filter (\<lambda>r. f_path r = p) (files (view w)) = r # rs"
    by (cases "filter (\<lambda>r. f_path r = p) (files (view w))") auto
  then show ?thesis by (simp add: needs_update_def)
qed

lemma report_fields:
  "committed (report e c w) = committed w" "pending (report e c w) = pending w"
  "error_log (report e c w) = error_log w" "open_workbooks (report e c w) = open_workbooks w"
  by (simp_all add: report_def)

lemma process_file_settled:
  assumes "pending w = None" "settled e (committed w) (i, p)"
  shows "committed (process_file e t n (i, p) w) = committed w
       \<and> pending (process_file e t n (i, p) w) = None"
proof (cases "getmtime e p")
  case (Inl err)
  then show ?thesis using assms(1) by (simp add: process_file_def)
next
  case (Inr m)
  show ?thesis
  proof (cases "has_record (committed w) p")
    case True
    then show ?thesis
      using assms(1) Inr
      by (simp add: process_file_def needs_update_record view_autocommit)
  next
    case False
    with assms(2) Inr have f: "store_fault e i \<noteq> None \<or> isl (load_workbook e p)"
      by (auto simp add: settled_def)
    have "pending (report e (percent i n, Indexing (basename p)) w) = None"
      using assms(1) by (simp add: report_fields)
    from index_file_failed [OF this f, of m t] False assms(1) Inr show ?thesis
      by (simp add: process_file_def needs_update_no_record view_autocommit report_fields)
  qed
qed

lemma process_file_step:
  assumes "pending w = None"
  shows "pending (process_file e t n (i, p) w) = None
       \<and> (has_record (committed w) q \<longrightarrow> has_record (committed (process_file e t n (i, p) w)) q)
       \<and> settled e (committed (process_file e t n (i, p) w)) (i, p)"
proof (cases "settled e (committed w) (i, p)")
  case True
  from process_file_settled [OF assms True, of t n] True show ?thesis by simp
next
  case False
  then obtain m wb where m: "getmtime e p = Inr m" and wb: "load_workbook e p = Inr wb"
    and nr: "\<not> has_record (committed w) p" and nf: "store_fault e i = None"
    by (auto simp add: settled_def isl_def) (metis sum.exhaust)+
  have pr: "pending (report e (percent i n, Indexing (basename p)) w) = None"
    using assms by (simp add: report_fields)
  have "process_file e t n (i, p) w =
          index_file e None (report e (percent i n, Indexing (basename p)) w) p m t"
    using m nr nf assms by (simp add: process_file_def needs_update_no_record view_autocommit)
  then show ?thesis
    using index_file_ok [OF pr wb, of m t] assms
    by (simp add: report_fields has_record_replaced settled_def)
qed

lemma process_file_new:
  assumes "pending w = None" "\<not> has_record (committed w) p" "getmtime e p = Inr m"
    "store_fault e i = None"
  shows "process_file e t n (i, p) w =
           index_file e None (report e (percent i n, Indexing (basename p)) w) p m t"
  using assms by (simp add: process_file_def needs_update_no_record view_autocommit)

lemma process_file_indexes:
  assumes "pending w = None" "no_orphans (committed w)" "\<not> has_record (committed w) p"
    "\<not> isl (getmtime e p)" "store_fault e i = None"
  shows "pending (process_file e t n (i, p) w) = None
       \<and> no_orphans (committed (process_file e t n (i, p) w))
       \<and> error_log (process_file e t n (i, p) w) = error_log w @ load_failures e [p]
       \<and> (\<forall>q. q \<noteq> p \<longrightarrow>
             rows_of (committed (process_file e t n (i, p) w)) q = rows_of (committed w) q
             \<and> has_record (committed (process_file e t n (i, p) w)) q
                 = has_record (committed w) q)
       \<and> (\<forall>wb. load_workbook e p = Inr wb \<longrightarrow>
             has_record (committed (process_file e t n (i, p) w)) p
             \<and> entries_of (committed (process_file e t n (i, p) w)) p = extraction wb)"
proof -
  from assms(4) obtain m where m: "getmtime e p = Inr m"
    by (cases "getmtime e p") auto
  let ?r = "report e (percent i n, Indexing (basename p)) w"
  have eq: "process_file e t n (i, p) w = index_file e None ?r p m t"
    by (rule process_file_new [OF assms(1,3) m assms(5)])
  have pr: "pending ?r = None" using assms(1) by (simp add: report_fields)
  show ?thesis
  proof (cases "load_workbook e p")
    case (Inl err)
    then have w1: "process_file e t n (i, p) w = log_failure p err ?r"
      by (simp add: eq index_file_load_failed)
    show ?thesis
      using pr assms(2) Inl
      by (simp add: w1 log_failure_def report_fields load_failures_def)
  next
    case (Inr wb')
    have c1: "committed (process_file e t n (i, p) w)
                = replaced p (isoformat m) (isoformat t) (extraction wb') (committed w)"
      and p1: "pending (process_file e t n (i, p) w) = None"
      and l1: "error_log (process_file e t n (i, p) w) = error_log w"
      using pr by (simp_all add: eq index_file_ok [OF pr Inr] report_fields)
    have "no_orphans (committed (process_file e t n (i, p) w))"
      by (simp add: c1 no_orphans_replaced_new [OF assms(3,2)])
    moreover have "error_log (process_file e t n (i, p) w) = error_log w @ load_failures e [p]"
      using Inr by (simp add: l1 load_failures_def)
    moreover have "\<forall>q. q \<noteq> p \<longrightarrow>
             rows_of (committed (process_file e t n (i, p) w)) q = rows_of (committed w) q
             \<and> has_record (committed (process_file e t n (i, p) w)) q
                 = has_record (committed w) q"
      by (simp add: c1 rows_of_replaced_other [OF assms(3)] has_record_replaced)
    moreover have "\<forall>wb. load_workbook e p = Inr wb \<longrightarrow>
             has_record (committed (process_file e t n (i, p) w)) p
             \<and> entries_of (committed (process_file e t n (i, p) w)) p = extraction wb"
      using Inr by (simp add: c1 entries_of_replaced_new [OF assms(3,2)] has_record_replaced)
    ultimately show ?thesis using p1 by (intro conjI)
  qed
qed

subsection \<open>The loop\<close>

lemma fold_process_file_settles:
  assumes "pending w = None"
  shows "pending (fold (process_file e t n) cs w) = None
       \<and> (has_record (committed w) q \<longrightarrow> has_record (committed (fold (process_file e t n) cs w)) q)
       \<and> list_all (settled e (committed (fold (process_file e t n) cs w))) cs"
  using assms
proof (induction cs arbitrary: w q)
  case Nil
  then show ?case by simp
next
  case (Cons c cs)
  obtain i p where c: "c = (i, p)" by (cases c)
  let ?w1 = "process_file e t n (i, p) w"
  let ?w2 = "fold (process_file e t n) cs ?w1"
  have p1: "pending ?w1 = None" and s1: "settled e (committed ?w1) (i, p)"
    and h1: "\<And>q. has_record (committed w) q \<Longrightarrow> has_record (committed ?w1) q"
    by (simp_all add: process_file_step [OF Cons.prems])
  from Cons.IH [OF p1]
  have p2: "pending ?w2 = None" and a2: "list_all (settled e (committed ?w2)) cs"
    and h2: "\<And>q. has_record (committed ?w1) q \<Longrightarrow> has_record (committed ?w2) q"
    by simp_all
  from s1 h2 have "settled e (committed ?w2) (i, p)"
    by (auto simp add: settled_def)
  with p2 a2 h1 h2 show ?case by (simp add: c)
qed

lemma fold_process_file_settled:
  assumes "pending w = None" "list_all (settled e (committed w)) cs"
  shows "committed (fold (process_file e t n) cs w) = committed w
       \<and> pending (fold (process_file e t n) cs w) = None"
  using assms
proof (induction cs arbitrary: w)
  case Nil
  then show ?case by simp
next
  case (Cons c cs)
  obtain i p where c: "c = (i, p)" by (cases c)
  from Cons.prems have s: "settled e (committed w) (i, p)"
    and r: "list_all (settled e (committed w)) cs" by (simp_all add: c)
  from process_file_settled [OF Cons.prems(1) s, of t n]
  have c1: "committed (process_file e t n (i, p) w) = committed w"
    and p1: "pending (process_file e t n (i, p) w) = None" by simp_all
  from Cons.IH [OF p1] r c1 show ?case by (simp add: c)
qed

lemma committed_update_index:
  "committed (update_index e t w) =
     committed (fold (process_file e t (length (excel_files e))) (enumerate 0 (excel_files e))
                  (w\<lparr>pending := None\<rparr>))"
  by (simp add: update_index_def Let_def report_fields)

lemma pending_update_index: "pending (update_index e t w) = None"
  by (simp add: update_index_def Let_def)

lemma settled_transfer:
  assumes "getmtime e2 = getmtime e1" "load_workbook e2 = load_workbook e1"
    "\<forall>i. store_fault e1 i = None \<or> store_fault e2 i \<noteq> None"
    "settled e1 d c"
  shows "settled e2 d c"
proof -
  from assms(3) have "store_fault e1 (fst c) = None \<or> store_fault e2 (fst c) \<noteq> None"
    by blast
  with assms(1,2,4) show ?thesis by (auto simp add: settled_def)
qed

subsection \<open>A run over paths without FileRecords\<close>

lemma load_failures_Cons:
  "load_failures e (p # ps) = load_failures e [p] @ load_failures e ps"
  by (simp add: load_failures_def)

lemma fold_process_file_indexes:
  assumes "pending w = None" "no_orphans (committed w)" "distinct (map snd cs)"
    "\<forall>c\<in>set cs. \<not> has_record (committed w) (snd c) \<and> \<not> isl (getmtime e (snd c))
        \<and> store_fault e (fst c) = None"
  shows "pending (fold (process_file e t n) cs w) = None
       \<and> no_orphans (committed (fold (process_file e t n) cs w))
       \<and> error_log (fold (process_file e t n) cs w) = error_log w @ load_failures e (map snd cs)
       \<and> (\<forall>q. q \<notin> set (map snd cs) \<longrightarrow>
             rows_of (committed (fold (process_file e t n) cs w)) q = rows_of (committed w) q
             \<and> has_record (committed (fold (process_file e t n) cs w)) q
                 = has_record (committed w) q)
       \<and> (\<forall>p\<in>set (map snd cs). \<forall>wb. load_workbook e p = Inr wb \<longrightarrow>
             has_record (committed (fold (process_file e t n) cs w)) p
             \<and> entries_of (committed (fold (process_file e t n) cs w)) p = extraction wb)"
  using assms
proof (induction cs arbitrary: w)
  case Nil
  then show ?case by (simp add: load_failures_def)
next
  case (Cons c cs)
  obtain i p where c: "c = (i, p)" by (cases c)
  let ?w1 = "process_file e t n (i, p) w"
  let ?w2 = "fold (process_file e t n) cs ?w1"
  from Cons.prems(4) have hp: "\<not> has_record (committed w) p" "\<not> isl (getmtime e p)"
    "store_fault e i = None" by (simp_all add: c)
  from Cons.prems(3) have np: "p \<notin> set (map snd cs)" and d: "distinct (map snd cs)"
    by (simp_all add: c)
  note s = process_file_indexes [OF Cons.prems(1,2) hp, of t n]
  from s have s1: "pending ?w1 = None" and s2: "no_orphans (committed ?w1)"
    and s3: "error_log ?w1 = error_log w @ load_failures e [p]"
    and s4: "\<And>q. q \<noteq> p \<Longrightarrow> rows_of (committed ?w1) q = rows_of (committed w) q"
    and s5: "\<And>q. q \<noteq> p \<Longrightarrow> has_record (committed ?w1) q = has_record (committed w) q"
    and s6: "\<And>wb. load_workbook e p = Inr wb \<Longrightarrow> has_record (committed ?w1) p"
    and s7: "\<And>wb. load_workbook e p = Inr wb \<Longrightarrow> entries_of (committed ?w1) p = extraction wb"
    by simp_all
  have pre: "\<forall>c\<in>set cs. \<not> has_record (committed ?w1) (snd c) \<and> \<not> isl (getmtime e (snd c))
        \<and> store_fault e (fst c) = None"
  proof
    fix c' assume m: "c' \<in> set cs"
    with np have "snd c' \<noteq> p" by auto
    with s5 [of "snd c'"] Cons.prems(4) m
    show "\<not> has_record (committed ?w1) (snd c') \<and> \<not> isl (getmtime e (snd c'))
        \<and> store_fault e (fst c') = None" by simp
  qed
  note ih = Cons.IH [OF s1 s2 d pre]
  from ih have i1: "pending ?w2 = None" and i2: "no_orphans (committed ?w2)"
    and i3: "error_log ?w2 = error_log ?w1 @ load_failures e (map snd cs)"
    and i4: "\<And>q. q \<notin> set (map snd cs) \<Longrightarrow> rows_of (committed ?w2) q = rows_of (committed ?w1) q"
    and i5: "\<And>q. q \<notin> set (map snd cs) \<Longrightarrow> has_record (committed ?w2) q = has_record (committed ?w1) q"
    by simp_all
  note i6 = ih [THEN conjunct2, THEN conjunct2, THEN conjunct2, THEN conjunct2, rule_format]
  have f: "fold (process_file e t n) (c # cs) w = ?w2" by (simp add: c)
  have "error_log ?w2 = error_log w @ load_failures e (map snd (c # cs))"
    using i3 s3 load_failures_Cons [of e p "map snd cs"] by (simp add: c)
  moreover have "\<forall>q. q \<notin> set (map snd (c # cs)) \<longrightarrow>
             rows_of (committed ?w2) q = rows_of (committed w) q
             \<and> has_record (committed ?w2) q = has_record (committed w) q"
    using i4 i5 s4 s5 by (simp add: c)
  moreover have "\<forall>q\<in>set (map snd (c # cs)). \<forall>wb. load_workbook e q = Inr wb \<longrightarrow>
             has_record (committed ?w2) q \<and> entries_of (committed ?w2) q = extraction wb"
  proof (intro ballI allI impI)
    fix q wb assume q: "q \<in> set (map snd (c # cs))" and l: "load_workbook e q = Inr wb"
    show "has_record (committed ?w2) q \<and> entries_of (committed ?w2) q = extraction wb"
    proof (cases "q = p")
      case True
      from i4 [OF np] i5 [OF np] s6 [of wb] s7 [of wb] l True show ?thesis
        by (simp add: entries_of_def)
    next
      case False
      with q have "q \<in> set (map snd cs)" by (simp add: c)
      from i6 [OF this l] show ?thesis .
    qed
  qed
  ultimately show ?case using i1 i2 unfolding f by (intro conjI)
qed

lemma load_failures_none:
  "\<forall>p\<in>set ps. \<not> isl (load_workbook e p) \<Longrightarrow> load_failures e ps = []"
  by (induction ps) (auto simp add: load_failures_def split: sum.splits)

lemma load_failures_single:
  assumes "distinct fs" "bad \<in> set fs" "load_workbook e bad = Inl err"
    "\<forall>p\<in>set fs. p = bad \<or> \<not> isl (load_workbook e p)"
  shows "load_failures e fs = [(bad, err)]"
  using assms
proof (induction fs)
  case Nil
  then show ?case by simp
next
  case (Cons p ps)
  show ?case
  proof (cases "p = bad")
    case True
    with Cons.prems have "\<forall>q\<in>set ps. \<not> isl (load_workbook e q)" by auto
    from load_failures_none [OF this] True Cons.prems(3) show ?thesis
      by (simp add: load_failures_Cons [of e p ps]) (simp add: load_failures_def)
  next
    case False
    with Cons.prems have "\<not> isl (load_workbook e p)" by auto
    then have "load_failures e [p] = []" by (rule_tac load_failures_none) simp
    moreover from False Cons.prems have "load_failures e ps = [(bad, err)]"
      by (intro Cons.IH) auto
    ultimately show ?thesis by (simp add: load_failures_Cons [of e p ps])
  qed
qed

subsection \<open>Calls of the progress callback\<close>

lemma progress_replace_file:
  "progress (snd (replace_file fault p m t wb w0)) = progress w0"
  by (simp add: replace_file_def Let_def execute_def commit_def
        split: sum.splits prod.splits option.splits)

lemma progress_begin_transaction:
  "begin_transaction fault w = Inr w2 \<Longrightarrow> progress w2 = progress w"
  by (auto simp add: begin_transaction_def split: if_splits option.splits)

lemma progress_index_file: "progress (index_file e fault w p m t) = progress w"
proof (cases "load_workbook e p")
  case (Inl err)
  then show ?thesis by (simp add: index_file_def log_failure_def)
next
  case (Inr wb)
  let ?w1 = "w\<lparr>open_workbooks := p # open_workbooks w\<rparr>"
  show ?thesis
  proof (cases "begin_transaction fault ?w1")
    case (Inl err)
    with Inr show ?thesis by (simp add: index_file_def log_failure_def)
  next
    case w2: (Inr w2)
    obtain r w3 where r: "replace_file fault p m t wb w2 = (r, w3)"
      by (cases "replace_file fault p m t wb w2")
    from progress_replace_file [of fault p m t wb w2] r have "progress w3 = progress w2"
      by simp
    with progress_begin_transaction [OF w2] have "progress w3 = progress w" by simp
    with Inr w2 r show ?thesis
      by (cases r) (simp_all add: index_file_def log_failure_def wb_close_def rollback_def)
  qed
qed

lemma progress_process_file:
  assumes "has_callback e"
  shows "progress (process_file e t n c w) = progress w @ callback_calls e n c w"
proof -
  obtain i p where c: "c = (i, p)" by (cases c)
  show ?thesis
  proof (cases "getmtime e p")
    case (Inl err)
    then show ?thesis by (simp add: c process_file_def callback_calls_def)
  next
    case (Inr mt)
    show ?thesis
    proof (cases "needs_update w p mt")
      case (Inl err)
      with Inr show ?thesis by (simp add: c process_file_def callback_calls_def)
    next
      case b: (Inr b)
      with Inr assms show ?thesis
        by (cases b) (simp_all add: c process_file_def callback_calls_def progress_index_file report_def)
    qed
  qed
qed

lemma progress_fold_process_file:
  assumes "has_callback e"
  shows "progress (fold (process_file e t n) cs w) =
           progress w @
           concat (map (\<lambda>k. callback_calls e n (cs ! k) (fold (process_file e t n) (take k cs) w))
                       [0..<length cs])"
proof (induction cs rule: rev_induct)
  case Nil
  then show ?case by simp
next
  case (snoc c cs)
  let ?F = "\<lambda>xs k. callback_calls e n (xs ! k) (fold (process_file e t n) (take k xs) w)"
  have eq: "map (?F (cs @ [c])) [0..<length cs] = map (?F cs) [0..<length cs]"
    by (rule map_cong) (simp_all add: nth_append)
  have "concat (map (?F (cs @ [c])) [0..<length (cs @ [c])])
          = concat (map (?F (cs @ [c])) [0..<length cs]) @ ?F (cs @ [c]) (length cs)"
    by simp
  also have "\<dots> = concat (map (?F cs) [0..<length cs]) @ ?F (cs @ [c]) (length cs)"
    by (simp only: eq)
  also have "\<dots> = concat (map (?F cs) [0..<length cs])
                    @ callback_calls e n c (fold (process_file e t n) cs w)"
    by simp
  finally have r: "concat (map (?F (cs @ [c])) [0..<length (cs @ [c])])
          = concat (map (?F cs) [0..<length cs])
            @ callback_calls e n c (fold (process_file e t n) cs w)" .
  have "progress (fold (process_file e t n) (cs @ [c]) w)
          = progress (fold (process_file e t n) cs w)
            @ callback_calls e n c (fold (process_file e t n) cs w)"
    by (simp add: progress_process_file [OF assms])
  also have "\<dots> = progress w @ concat (map (?F cs) [0..<length cs])
                    @ callback_calls e n c (fold (process_file e t n) cs w)"
    by (simp only: snoc.IH append_assoc)
  also have "\<dots> = progress w @ concat (map (?F (cs @ [c])) [0..<length (cs @ [c])])"
    by (simp only: r)
  finally show ?case .
qed

lemmas store_defs =
  index_file_def begin_transaction_def replace_file_def execute_def view_def commit_def
  rollback_def wb_close_def log_failure_def delete_files_def delete_content_def
  select_file_ids_def insert_file_def insert_content_def insert_content_row_def next_rowid_def
  extraction_def sheet_entries_def sheet_messages_def

subsection \<open>Re-indexing a path that has committed rows\<close>

text \<open>
  Claim C1: a successful re-index of a path that already has committed rows leaves the rows
  of \<open>content_index\<close> owned by that path equal to the entries of the new extraction, with
  the old FileRecord and its ContentEntry rows deleted.

  The code does not do this. Line 147 deletes the row of \<open>files\<close> first, so the subquery
  of line 148 selects no id and no row of \<open>content_index\<close> is deleted. In the store
  \<open>indexed\<close>, where \<open>fileA.xlsx\<close> has id 1 and one entry, the re-index of the edited file
  gives the new row of \<open>files\<close> the id 1 again, and the path then owns the entry of the
  old version as well as the entry of the new one. In general a successful \<open>index_file\<close>
  keeps every row that \<open>content_index\<close> had (lemma \<open>index_file_keeps_content_rows\<close>).
\<close>

theorem reindex_keeps_old_rows:
  "entries_of
     (committed (index_file revised_env None indexed ''/root/fileA.xlsx'' time_b time_now))
     ''/root/fileA.xlsx''
   = [(''Sheet1'', ''A1'', ''Invoice 123''), (''Sheet1'', ''A1'', ''Invoice 456'')]
   \<and> extraction revised_book = [(''Sheet1'', ''A1'', ''Invoice 456'')]"
  by (simp add: store_defs revised_env_def indexed_def invoice_file_def invoice_row_def
        revised_book_def entries_of_def rows_of_def entry_def Let_def)

subsection \<open>Failure inside the transaction\<close>

text \<open>
  Claim C2: when the store raises at any statement of \<open>index_file\<close>, the transaction is
  rolled back: the committed rows of \<open>files\<close> and \<open>content_index\<close>, of this path and of
  every other, are what they were, and the connection holds no half-written rows. A
  failure inside the transaction is an exception that leaves the body of the inner \<open>try\<close>;
  the exception of one sheet is caught inside the body (line 170) and is not one.
\<close>

theorem index_file_failure_rolls_back:
  assumes "pending w = None"
  shows "committed (index_file e (Some s) w p m t) = committed w
       \<and> pending (index_file e (Some s) w p m t) = None"
  using index_file_failed [OF assms, of "Some s" e p m t] by simp

theorem index_file_failure_rolls_back_witness:
  "pending indexed = None
   \<and> committed (index_file revised_env (Some Commit) indexed ''/root/fileA.xlsx'' time_b
        time_now) = committed indexed
   \<and> pending (index_file revised_env (Some Commit) indexed ''/root/fileA.xlsx'' time_b
        time_now) = None"
  using index_file_failure_rolls_back
    [of indexed revised_env Commit "''/root/fileA.xlsx''" time_b time_now]
  by (simp add: indexed_def)

subsection \<open>The change detector\<close>

text \<open>
  Claim C5: \<open>needs_update\<close> answers that a path needs indexing exactly when no FileRecord
  exists for it or the stored last-modified timestamp is strictly older than the current
  modification time.

  The code answers only for a path without a FileRecord. For a path with one, line 134
  compares the stored column, which comes back as a \<open>str\<close>, with a \<open>datetime\<close>, and Python
  raises \<open>TypeError\<close>: in the store \<open>indexed\<close>, whose record of \<open>fileA.xlsx\<close> is one day
  older than \<open>time_b\<close>, the call raises instead of answering. The same holds for every
  path with a FileRecord (lemma \<open>needs_update_record\<close>); a path without one needs indexing
  (lemma \<open>needs_update_no_record\<close>).
\<close>

theorem needs_update_raises_on_record:
  "needs_update indexed ''/root/fileA.xlsx'' time_b = Inl TypeError"
  by (simp add: needs_update_def indexed_def invoice_file_def view_def)

subsection \<open>The workbook handle\<close>

text \<open>
  Claim C8: once \<open>index_file\<close> has opened the workbook, the handle is closed on every exit
  path, also when an exception is raised before the transaction.

  The code calls \<open>wb.close()\<close> in the \<open>finally\<close> of the inner \<open>try\<close>, which lines 144 and
  145 precede. When \<open>BEGIN TRANSACTION\<close> raises, whether by a fault of the store or because
  the connection is inside a transaction, the workbook of \<open>fileA.xlsx\<close> stays open.
  On every path on which \<open>BEGIN TRANSACTION\<close> does not raise the handle is closed
  (lemma \<open>index_file_closes_workbook\<close>).
\<close>

theorem begin_failure_leaks_workbook:
  "open_workbooks (index_file root_env (Some Begin) fresh ''/root/fileA.xlsx'' time_a time_now)
     = [''/root/fileA.xlsx'']
   \<and> open_workbooks
       (index_file root_env None (fresh\<lparr>pending := Some (committed fresh)\<rparr>)
          ''/root/fileA.xlsx'' time_a time_now)
     = [''/root/fileA.xlsx'']"
  by (simp add: store_defs root_env_def fresh_def Let_def)

subsection \<open>Extraction\<close>

text \<open>
  Claim C9: for every sheet and every cell whose value is not empty, exactly one entry is
  committed, and no such cell is skipped.

  The code keeps the cells whose value is true in Python's sense (line 163), and the
  number 0 is not. The workbook \<open>zero_book\<close> has 0 in A1 and a text in B1; after
  \<open>index_file\<close> the store has the entry of B1 only. A sheet that raises takes nothing
  away from the other sheets (lemma \<open>extraction_other_sheets\<close>), and keeps the cells that
  were read before it raised.
\<close>

theorem zero_cell_is_skipped:
  "map entry
     (content_index
        (committed (index_file zero_env None fresh ''/root/fileA.xlsx'' time_a time_now)))
   = [(''Sheet1'', ''B1'', ''total'')]"
  by (simp add: store_defs zero_env_def fresh_def zero_book_def entry_def Let_def)

subsection \<open>Search\<close>

lemma plain_Cons:
  "plain (c # q) = (c \<noteq> CHR ''%'' \<and> c \<noteq> CHR ''_'' \<and> c \<noteq> CHR 0x00 \<and> plain q)"
  by (simp add: plain_def)

lemma ascii_letters_plain: "ascii_letters q \<Longrightarrow> plain q"
  by (induction q) (auto simp add: ascii_letters_def plain_def)

lemma c_str_plain: "plain q \<Longrightarrow> c_str (''%'' @ q @ ''%'') = ''%'' @ q @ ''%''"
  by (simp add: c_str_def plain_def takeWhile_eq_all_conv list_all_iff)

lemma utf8_length_append: "utf8_length (a @ b) = utf8_length a + utf8_length b"
  by (simp add: utf8_length_def)

lemma utf8_length_replicate:
  "utf8_length (replicate n c) = n * (if (of_char c :: nat) < 128 then 1 else 2)"
  by (induction n) (simp_all add: utf8_length_def)

lemma utf8_length_pattern: "utf8_length (CHR ''%'' # q @ ''%'') = utf8_length q + 2"
  by (simp add: utf8_length_def)

lemma utf8_length_ascii_letters: "ascii_letters q \<Longrightarrow> utf8_length q = length q"
  by (induction q) (auto simp add: ascii_letters_def utf8_length_def)

lemma utf8_length_le: "utf8_length q \<le> 2 * length q"
  by (induction q) (simp_all add: utf8_length_def)

lemma select_like_within_limit:
  assumes "utf8_length pat \<le> like_pattern_limit"
  shows "select_like d pat =
     Inr (concat
        (map (\<lambda>ci. map (\<lambda>f. (f_path f, c_sheet_name ci, c_cell_coordinate ci, c_content ci))
                       (filter (\<lambda>f. c_file_id ci = f_id f) (files d)))
             (filter (\<lambda>ci. pattern_compare (c_str pat) (c_str (c_content ci))) (content_index d))))"
proof -
  from assms have "\<And>t. like pat t = Inr (pattern_compare (c_str pat) (c_str t))"
    by (simp add: like_def)
  then show ?thesis by (simp add: select_like_def list_ex_iff)
qed

lemma search_beyond_limit:
  assumes "like_pattern_limit < utf8_length q + 2"
  shows "search None w q = []"
proof -
  from assms have "\<And>t. like (''%'' @ q @ ''%'') t = Inl PatternError"
    by (simp add: like_def utf8_length_pattern)
  then show ?thesis
    by (cases "content_index (committed w)") (simp_all add: search_def select_like_def)
qed


lemma pattern_compare_percent: "pattern_compare ''%'' s"
  by (induction s) simp_all

lemma pattern_compare_plain_prefix:
  "plain q \<Longrightarrow> pattern_compare (q @ ''%'') s = prefix (map lower q) (map lower s)"
proof (induction q arbitrary: s)
  case Nil
  then show ?case using pattern_compare_percent by simp
next
  case (Cons c q)
  then show ?case by (cases s) (simp_all add: plain_Cons)
qed

lemma pattern_compare_percent_suffix: "pattern_compare (CHR ''%'' # r) s = (\<exists>t. suffix t s \<and> pattern_compare r t)"
proof (induction s)
  case Nil
  then show ?case by simp
next
  case (Cons c cs)
  then show ?case by (auto simp add: suffix_Cons)
qed

lemma sublist_map_iff:
  "sublist ys (map f s) = (\<exists>u. sublist u s \<and> map f u = ys)"
proof
  assume "sublist ys (map f s)"
  then obtain ps ss where "map f s = ps @ ys @ ss" by (auto simp add: sublist_def)
  then have "\<exists>us vs. s = us @ vs \<and> ps = map f us \<and> ys @ ss = map f vs"
    by (rule map_eq_append_conv [THEN iffD1])
  then obtain s1 r where r: "s = s1 @ r" "map f r = ys @ ss"
    by auto
  from r(2) have "\<exists>us vs. r = us @ vs \<and> ys = map f us \<and> ss = map f vs"
    by (rule map_eq_append_conv [THEN iffD1])
  then obtain u s3 where u: "r = u @ s3" "map f u = ys"
    by auto
  from r(1) u(1) have "sublist u s" by (simp add: sublist_def) blast
  with u(2) show "\<exists>u. sublist u s \<and> map f u = ys" by blast
next
  assume "\<exists>u. sublist u s \<and> map f u = ys"
  then show "sublist ys (map f s)" using map_mono_sublist by blast
qed

lemma pattern_compare_contains_plain:
  assumes "plain q"
  shows "pattern_compare (''%'' @ q @ ''%'') s = sublist (map lower q) (map lower s)"
proof -
  have "pattern_compare (''%'' @ q @ ''%'') s = (\<exists>t. suffix t s \<and> prefix (map lower q) (map lower t))"
    using pattern_compare_percent_suffix [of "q @ ''%''" s] pattern_compare_plain_prefix [OF assms] by simp
  also have "\<dots> = sublist (map lower q) (map lower s)"
  proof
    assume "\<exists>t. suffix t s \<and> prefix (map lower q) (map lower t)"
    then obtain t where t: "suffix t s" "prefix (map lower q) (map lower t)" by blast
    from t(1) have "suffix (map lower t) (map lower s)" by (auto simp add: suffix_def)
    with t(2) show "sublist (map lower q) (map lower s)"
      using sublist_altdef' by blast
  next
    assume "sublist (map lower q) (map lower s)"
    then obtain ps ss where "map lower s = ps @ map lower q @ ss"
      by (auto simp add: sublist_def)
    then have "\<exists>us vs. s = us @ vs \<and> ps = map lower us \<and> map lower q @ ss = map lower vs"
      by (rule map_eq_append_conv [THEN iffD1])
    then obtain s1 t where s: "s = s1 @ t" "map lower t = map lower q @ ss"
      by auto
    then have "suffix t s \<and> prefix (map lower q) (map lower t)" by (simp add: suffix_def)
    then show "\<exists>t. suffix t s \<and> prefix (map lower q) (map lower t)" by blast
  qed
  finally show ?thesis .
qed

lemma search_within_limit:
  assumes "utf8_length q + 2 \<le> like_pattern_limit"
  shows "search None w q =
     concat
       (map (\<lambda>ci. map (\<lambda>f. (f_path f, c_sheet_name ci, c_cell_coordinate ci, c_content ci))
                      (filter (\<lambda>f. c_file_id ci = f_id f) (files (committed w))))
            (filter (\<lambda>ci. pattern_compare (c_str (''%'' @ q @ ''%'')) (c_str (c_content ci)))
               (content_index (committed w))))"
proof -
  have l: "utf8_length (''%'' @ q @ ''%'') \<le> like_pattern_limit"
    using assms by (simp add: utf8_length_pattern)
  show ?thesis
    unfolding search_def select_like_within_limit [OF l] by simp
qed

lemma search_member_plain:
  assumes "c \<in> set (content_index (committed w))" "f \<in> set (files (committed w))"
    "c_file_id c = f_id f" "plain q" "utf8_length q + 2 \<le> like_pattern_limit"
  shows "(result_row f c \<in> set (search None w q))
         = sublist (map lower q) (map lower (c_str (c_content c)))"
proof -
  let ?pat = "''%'' @ q @ ''%''"
  have "(result_row f c \<in> set (search None w q)) = pattern_compare (c_str ?pat) (c_str (c_content c))"
    using assms(1,2,3)
    by (auto simp add: search_within_limit [OF assms(5)] result_row_def)
  also have "\<dots> = pattern_compare ?pat (c_str (c_content c))"
    by (simp only: c_str_plain [OF assms(4)])
  also have "\<dots> = sublist (map lower q) (map lower (c_str (c_content c)))"
    by (rule pattern_compare_contains_plain [OF assms(4)])
  finally show ?thesis .
qed

lemma c_str_no_nul: "CHR 0x00 \<notin> set s \<Longrightarrow> c_str s = s"
  by (auto simp add: c_str_def takeWhile_eq_all_conv)

lemmas search_defs =
  search_def select_like_def like_def like_pattern_limit_def utf8_length_def c_str_def
  lower_def

text \<open>
  The query that is the character U+0000 alone gives the pattern \<open>%\<close>, which every row
  matches; a text is compared up to its first U+0000.
\<close>

lemma nul_query_matches_every_row:
  "search None indexed [CHR 0x00]
     = [(''/root/fileA.xlsx'', ''Sheet1'', ''A1'', ''Invoice 123'')]"
  by (simp add: search_defs indexed_def invoice_file_def invoice_row_def)

text \<open>
  Claim C3: \<open>search(q)\<close> returns a stored entry if and only if \<open>q\<close> is a contiguous
  substring of its content; \<open>search("")\<close> returns every stored entry.

  As stated the claim fails: \<open>LIKE\<close> folds ASCII case and reads \<open>%\<close> and \<open>_\<close> in the
  query as wildcards, so \<open>invoice\<close> and \<open>I_v%e\<close> both return the entry \<open>Invoice 123\<close>,
  of which neither is a substring.
\<close>

theorem search_not_exact_substring:
  "search None indexed ''invoice'' = [(''/root/fileA.xlsx'', ''Sheet1'', ''A1'', ''Invoice 123'')]
   \<and> \<not> sublist ''invoice'' ''Invoice 123''
   \<and> search None indexed ''I_v%e'' = [(''/root/fileA.xlsx'', ''Sheet1'', ''A1'', ''Invoice 123'')]
   \<and> \<not> sublist ''I_v%e'' ''Invoice 123''"
proof -
  have a: "search None indexed ''invoice''
             = [(''/root/fileA.xlsx'', ''Sheet1'', ''A1'', ''Invoice 123'')]"
    by (simp add: search_defs indexed_def invoice_file_def invoice_row_def)
  have b: "\<not> sublist ''invoice'' ''Invoice 123''"
    by (simp add: sublist_Cons_right prefix_code)
  have c: "search None indexed ''I_v%e''
             = [(''/root/fileA.xlsx'', ''Sheet1'', ''A1'', ''Invoice 123'')]"
    by (simp add: search_defs indexed_def invoice_file_def invoice_row_def)
  have d: "\<not> sublist ''I_v%e'' ''Invoice 123''"
    by (simp add: sublist_Cons_right prefix_code)
  from a b c d show ?thesis by blast
qed

text \<open>
  Claim C3 as amended: for an entry that is joined to a row of \<open>files\<close>, and a query \<open>q\<close>
  that contains none of \<open>%\<close>, \<open>_\<close> and U+0000, that has at most 49998 bytes in UTF-8 and
  that the store answers without an error, \<open>search(q)\<close> returns the entry if and only if
  \<open>q\<close> is, up to ASCII letter case, a contiguous substring of its content, where a content
  that contains U+0000 counts up to the first U+0000 only; the empty query returns every
  such entry.
\<close>

theorem search_substring_up_to_case:
  assumes "c \<in> set (content_index (committed w))" "f \<in> set (files (committed w))"
    "c_file_id c = f_id f" "plain q" "utf8_length q + 2 \<le> like_pattern_limit"
  shows "(result_row f c \<in> set (search None w q))
           = sublist (map lower q) (map lower (c_str (c_content c)))
       \<and> result_row f c \<in> set (search None w [])"
proof -
  have "plain []" "utf8_length [] + 2 \<le> like_pattern_limit"
    by (simp_all add: plain_def utf8_length_def like_pattern_limit_def)
  from search_member_plain [OF assms(1,2,3) this]
  have "result_row f c \<in> set (search None w [])" by simp
  with search_member_plain [OF assms] show ?thesis by simp
qed

theorem search_substring_up_to_case_witness:
  "invoice_row \<in> set (content_index (committed indexed))
   \<and> invoice_file \<in> set (files (committed indexed))
   \<and> c_file_id invoice_row = f_id invoice_file
   \<and> plain ''invoice''
   \<and> utf8_length ''invoice'' + 2 \<le> like_pattern_limit
   \<and> (result_row invoice_file invoice_row \<in> set (search None indexed ''invoice''))
       = sublist (map lower ''invoice'') (map lower (c_str (c_content invoice_row)))
   \<and> result_row invoice_file invoice_row \<in> set (search None indexed [])
   \<and> c_str (c_content invoice_row) = ''Invoice 123''
   \<and> sublist (map lower ''invoice'') (map lower ''Invoice 123'')"
proof -
  have h: "invoice_row \<in> set (content_index (committed indexed))"
    "invoice_file \<in> set (files (committed indexed))"
    "c_file_id invoice_row = f_id invoice_file" "plain ''invoice''"
    "utf8_length ''invoice'' + 2 \<le> like_pattern_limit"
    by (simp_all add: indexed_def invoice_row_def invoice_file_def plain_def utf8_length_def
          like_pattern_limit_def)
  have s: "c_str (c_content invoice_row) = ''Invoice 123''"
    "sublist (map lower ''invoice'') (map lower ''Invoice 123'')"
    by (simp_all add: invoice_row_def lower_def c_str_def)
  from h s search_substring_up_to_case [OF h] show ?thesis by blast
qed

text \<open>
  Claim C10: for every stored entry and every query \<open>q\<close> of ASCII letters only, a query
  that differs from a stored substring in ASCII letter case at most still returns the row.

  As stated the claim fails for a long query: the pattern \<open>%q%\<close> of a query of 49999
  letters has 50001 bytes, \<open>LIKE\<close> raises, and line 205 returns the empty result, although
  the stored text of 49999 capital letters differs from the query in letter case only.
\<close>

theorem search_rejects_long_query:
  "long_row \<in> set (content_index (committed long_store))
   \<and> invoice_file \<in> set (files (committed long_store))
   \<and> c_file_id long_row = f_id invoice_file
   \<and> ascii_letters long_query
   \<and> sublist (c_content long_row) (c_content long_row)
   \<and> map lower (c_content long_row) = map lower long_query
   \<and> search None long_store long_query = []"
proof -
  have a: "long_row \<in> set (content_index (committed long_store))"
    "invoice_file \<in> set (files (committed long_store))"
    "c_file_id long_row = f_id invoice_file"
    by (simp_all add: long_store_def long_row_def invoice_file_def)
  have b: "ascii_letters long_query"
    by (simp add: ascii_letters_def long_query_def list_all_iff)
  have c: "map lower (c_content long_row) = map lower long_query"
    by (simp add: long_row_def long_query_def lower_def)
  have "like_pattern_limit < utf8_length long_query + 2"
    by (simp add: long_query_def utf8_length_replicate like_pattern_limit_def)
  then have d: "search None long_store long_query = []"
    by (rule search_beyond_limit)
  from a b c d show ?thesis by simp
qed

text \<open>
  Claim C10 as amended: for an entry that is joined to a row of \<open>files\<close> and a query \<open>q\<close>
  of at most 49998 ASCII letters, \<open>search(q)\<close> compares without regard to ASCII case: it
  returns the entry exactly when some contiguous substring of the content (up to its first
  U+0000, if it has one) differs from \<open>q\<close> in ASCII letter case at most.
\<close>

theorem search_ignores_ascii_case:
  assumes "c \<in> set (content_index (committed w))" "f \<in> set (files (committed w))"
    "c_file_id c = f_id f" "ascii_letters q" "length q + 2 \<le> like_pattern_limit"
  shows "(result_row f c \<in> set (search None w q))
           = (\<exists>u. sublist u (c_str (c_content c)) \<and> map lower u = map lower q)"
proof -
  from assms(4,5) have "utf8_length q + 2 \<le> like_pattern_limit"
    by (simp add: utf8_length_ascii_letters)
  from search_member_plain [OF assms(1,2,3) ascii_letters_plain [OF assms(4)] this]
    sublist_map_iff [of "map lower q" lower "c_str (c_content c)"]
  show ?thesis by simp
qed

theorem search_ignores_ascii_case_witness:
  "invoice_row \<in> set (content_index (committed indexed))
   \<and> invoice_file \<in> set (files (committed indexed))
   \<and> c_file_id invoice_row = f_id invoice_file
   \<and> ascii_letters ''INVOICE''
   \<and> length ''INVOICE'' + 2 \<le> like_pattern_limit
   \<and> (result_row invoice_file invoice_row \<in> set (search None indexed ''INVOICE''))
       = (\<exists>u. sublist u (c_str (c_content invoice_row)) \<and> map lower u = map lower ''INVOICE'')
   \<and> c_str (c_content invoice_row) = c_content invoice_row
   \<and> sublist ''Invoice'' (c_content invoice_row)
   \<and> map lower ''Invoice'' = map lower ''INVOICE''
   \<and> result_row invoice_file invoice_row \<in> set (search None indexed ''INVOICE'')"
proof -
  have h: "invoice_row \<in> set (content_index (committed indexed))"
    "invoice_file \<in> set (files (committed indexed))"
    "c_file_id invoice_row = f_id invoice_file" "ascii_letters ''INVOICE''"
    "length ''INVOICE'' + 2 \<le> like_pattern_limit"
    by (simp_all add: indexed_def invoice_row_def invoice_file_def ascii_letters_def
          like_pattern_limit_def)
  have n: "c_str (c_content invoice_row) = c_content invoice_row"
    by (simp add: invoice_row_def c_str_def)
  have u: "sublist ''Invoice'' (c_content invoice_row)"
    "map lower ''Invoice'' = map lower ''INVOICE''"
    by (simp_all add: invoice_row_def lower_def)
  with n have "\<exists>u. sublist u (c_str (c_content invoice_row))
                   \<and> map lower u = map lower ''INVOICE''"
    by (intro exI [of _ "''Invoice''"] conjI) simp_all
  with h n u search_ignores_ascii_case [OF h] show ?thesis by blast
qed

subsection \<open>Runs over a root\<close>

lemmas run_defs =
  update_index_def excel_files_def is_candidate_def path_join_def process_file_def
  needs_update_def report_def percent_def basename_def

lemma root_run:
  "update_index root_env time_b fresh =
     \<lparr>committed = \<lparr>files = [invoice_file\<lparr>f_last_indexed := isoformat time_b\<rparr>],
                   content_index = [invoice_row]\<rparr>,
      pending = None, open_workbooks = [],
      error_log = [(''/root/fileB.xlsm'', WorkbookError)],
      console = [IndexFileError ''/root/fileB.xlsm'' WorkbookError],
      progress = [(50, Indexing ''fileA.xlsx''), (100, Indexing ''fileB.xlsm''),
                  (100, IndexDone)]\<rparr>"
  by (simp add: run_defs store_defs root_env_def fresh_def invoice_book_def invoice_file_def
        invoice_row_def Let_def enumerate_eq_zip upt_rec prefix_code suffix_to_prefix
        numeral_2_eq_2 [symmetric])

text \<open>
  Claim C4: a second full indexing pass over the same root, with no modification time
  changed, leaves the rows of \<open>content_index\<close> as the first pass left them. The second pass
  sees the same walk, the same modification times and the same workbooks; where the store
  raised in the first pass it raises again. Both tables are then unchanged.
\<close>

theorem second_run_changes_nothing:
  assumes "walk e2 = walk e1" "getmtime e2 = getmtime e1" "load_workbook e2 = load_workbook e1"
    "\<forall>i. store_fault e1 i = None \<or> store_fault e2 i \<noteq> None"
  shows "committed (update_index e2 t2 (update_index e1 t1 w)) = committed (update_index e1 t1 w)"
proof -
  let ?cs = "enumerate 0 (excel_files e1)"
  let ?n = "length (excel_files e1)"
  let ?w1 = "fold (process_file e1 t1 ?n) ?cs (w\<lparr>pending := None\<rparr>)"
  have fs: "excel_files e2 = excel_files e1" using assms(1) by (simp add: excel_files_def)
  have "pending (w\<lparr>pending := None\<rparr>) = None" by simp
  from fold_process_file_settles [OF this, of e1 t1 ?n ?cs]
  have "list_all (settled e1 (committed ?w1)) ?cs" by simp
  then have s2: "list_all (settled e2 (committed (update_index e1 t1 w))) ?cs"
    using settled_transfer [OF assms(2,3,4)]
    by (simp add: committed_update_index list_all_iff)
  have "pending ((update_index e1 t1 w)\<lparr>pending := None\<rparr>) = None" by simp
  from fold_process_file_settled [OF this, of e2 ?cs t2 ?n] s2
  show ?thesis by (simp add: committed_update_index [of e2] fs)
qed

theorem second_run_changes_nothing_witness:
  "walk failing_env = walk root_env
   \<and> getmtime failing_env = getmtime root_env
   \<and> load_workbook failing_env = load_workbook root_env
   \<and> (\<forall>i. store_fault root_env i = None \<or> store_fault failing_env i \<noteq> None)
   \<and> committed (update_index failing_env time_now (update_index root_env time_b fresh))
       = committed (update_index root_env time_b fresh)
   \<and> content_index (committed (update_index root_env time_b fresh)) = [invoice_row]"
proof -
  have h: "walk failing_env = walk root_env" "getmtime failing_env = getmtime root_env"
    "load_workbook failing_env = load_workbook root_env"
    "\<forall>i. store_fault root_env i = None \<or> store_fault failing_env i \<noteq> None"
    by (simp_all add: failing_env_def root_env_def)
  have "content_index (committed (update_index root_env time_b fresh)) = [invoice_row]"
    by (simp add: root_run)
  with h second_run_changes_nothing [OF h, of time_now time_b fresh] show ?thesis by blast
qed

text \<open>
  Claim C6: in a run over \<open>total > 0\<close> candidates the progress callback is invoked after
  each candidate \<open>i\<close>, whether or not the candidate needed indexing, with the percentage
  \<open>floor((i+1)*100/total)\<close> and a label naming the file.

  As stated the claim fails: the call of line 115 stands inside the test of line 113. In a
  run over the root of the scenario on the store \<open>indexed\<close>, the candidate \<open>fileA.xlsx\<close>
  has a FileRecord with its current modification time, and the callback is not invoked for
  it.
\<close>

theorem no_callback_for_unchanged_file:
  "progress (update_index root_env time_now indexed)
     = [(100, Indexing ''fileB.xlsm''), (100, IndexDone)]"
  by (simp add: run_defs store_defs root_env_def indexed_def invoice_file_def invoice_row_def
        Let_def enumerate_eq_zip upt_rec prefix_code suffix_to_prefix
        numeral_2_eq_2 [symmetric])

text \<open>
  Claim C6 as amended: in a run with a progress callback, the calls made before the final
  call \<open>(100, done)\<close> are, in enumeration order, one call for each candidate \<open>i\<close> for which
  the change detector answered that the candidate needs indexing, with the percentage
  \<open>floor((i+1)*100/total)\<close> and a label naming the file, and no call for any other
  candidate. The world in which the detector is asked about candidate \<open>k\<close> is the one that
  the loop has reached after the first \<open>k\<close> candidates.
\<close>

theorem callback_only_when_needed:
  assumes "has_callback e"
  shows "progress (update_index e now w) =
           progress w @
           concat (map (\<lambda>k. callback_calls e (length (excel_files e))
                               (enumerate 0 (excel_files e) ! k)
                               (fold (process_file e now (length (excel_files e)))
                                  (take k (enumerate 0 (excel_files e))) (w\<lparr>pending := None\<rparr>)))
                       [0..<length (excel_files e)])
           @ [(100, IndexDone)]"
  using progress_fold_process_file [OF assms, of now "length (excel_files e)"
      "enumerate 0 (excel_files e)" "w\<lparr>pending := None\<rparr>"] assms
  by (simp add: update_index_def Let_def report_def)

theorem callback_only_when_needed_witness:
  "has_callback root_env
   \<and> progress (update_index root_env time_b fresh) =
       progress fresh @
       concat (map (\<lambda>k. callback_calls root_env (length (excel_files root_env))
                           (enumerate 0 (excel_files root_env) ! k)
                           (fold (process_file root_env time_b (length (excel_files root_env)))
                              (take k (enumerate 0 (excel_files root_env)))
                              (fresh\<lparr>pending := None\<rparr>)))
                   [0..<length (excel_files root_env)])
       @ [(100, IndexDone)]
   \<and> progress (update_index root_env time_b fresh)
       = [(50, Indexing ''fileA.xlsx''), (100, Indexing ''fileB.xlsm''), (100, IndexDone)]"
proof -
  have h: "has_callback root_env" by (simp add: root_env_def)
  have "progress (update_index root_env time_b fresh)
       = [(50, Indexing ''fileA.xlsx''), (100, Indexing ''fileB.xlsm''), (100, IndexDone)]"
    by (simp add: root_run)
  with h callback_only_when_needed [OF h, of time_b fresh] show ?thesis by (intro conjI)
qed

lemma error_log_update_index:
  "error_log (update_index e t w) =
     error_log (fold (process_file e t (length (excel_files e))) (enumerate 0 (excel_files e))
                  (w\<lparr>pending := None\<rparr>))"
  by (simp add: update_index_def Let_def report_fields)

lemma last_progress_update_index:
  "has_callback e \<Longrightarrow> last (progress (update_index e t w)) = (100, IndexDone)"
  by (simp add: update_index_def Let_def report_def)

text \<open>
  A run over documents that have no FileRecord yet, all readable but one whose workbook
  cannot be opened, with a store that does not raise: the error log gains exactly one line,
  which names the corrupt document; every other document then has a FileRecord and owns
  exactly the entries of its extraction; and the last call of the progress callback is the
  completion call with 100.
\<close>

lemma first_run_indexes_all_but_corrupt:
  assumes "distinct (excel_files e)"
    and "bad \<in> set (excel_files e)" and "load_workbook e bad = Inl err"
    and "list_all (\<lambda>p. p = bad \<or> \<not> isl (load_workbook e p)) (excel_files e)"
    and "list_all (\<lambda>p. \<not> isl (getmtime e p) \<and> \<not> has_record (committed w) p) (excel_files e)"
    and "\<forall>i. store_fault e i = None"
    and "no_orphans (committed w)"
  shows "error_log (update_index e now w) = error_log w @ [(bad, err)]
       \<and> (\<forall>p\<in>set (excel_files e). \<forall>wb. load_workbook e p = Inr wb \<longrightarrow>
             has_record (committed (update_index e now w)) p
             \<and> entries_of (committed (update_index e now w)) p = extraction wb)
       \<and> (has_callback e \<longrightarrow> last (progress (update_index e now w)) = (100, IndexDone))"
proof -
  let ?cs = "enumerate 0 (excel_files e)"
  let ?w0 = "w\<lparr>pending := None\<rparr>"
  have a1: "pending ?w0 = None" by simp
  have a2: "no_orphans (committed ?w0)" using assms(7) by simp
  have a3: "distinct (map snd ?cs)" using assms(1) by simp
  have a4: "\<forall>c\<in>set ?cs. \<not> has_record (committed ?w0) (snd c) \<and> \<not> isl (getmtime e (snd c))
        \<and> store_fault e (fst c) = None"
  proof
    fix c assume "c \<in> set ?cs"
    then have "snd c \<in> set (excel_files e)"
      by (metis map_snd_enumerate imageI set_map)
    with assms(5,6) show "\<not> has_record (committed ?w0) (snd c) \<and> \<not> isl (getmtime e (snd c))
        \<and> store_fault e (fst c) = None"
      by (simp add: list_all_iff)
  qed
  note f = fold_process_file_indexes [OF a1 a2 a3 a4, of now "length (excel_files e)"]
  have "\<forall>p\<in>set (excel_files e). p = bad \<or> \<not> isl (load_workbook e p)"
    using assms(4) by (simp add: list_all_iff)
  from load_failures_single [OF assms(1,2,3) this]
  have l: "load_failures e (excel_files e) = [(bad, err)]" .
  from f have "error_log (update_index e now w) = error_log w @ [(bad, err)]"
    by (simp add: error_log_update_index l)
  moreover from f have "\<forall>p\<in>set (excel_files e). \<forall>wb. load_workbook e p = Inr wb \<longrightarrow>
             has_record (committed (update_index e now w)) p
             \<and> entries_of (committed (update_index e now w)) p = extraction wb"
    by (simp add: committed_update_index)
  ultimately show ?thesis using last_progress_update_index [of e now w] by (intro conjI) simp_all
qed

text \<open>
  Claim C7: an error on one file is caught and does not abort the run: for a root of \<open>N\<close>
  valid documents and one corrupt document, the run indexes all \<open>N\<close> valid documents, adds
  exactly one line to the error log, which names the corrupt document, and reaches
  completion.

  The run always reaches completion, and it does what the claim says for documents that
  have no FileRecord yet (lemma \<open>first_run_indexes_all_but_corrupt\<close>). It does not for a
  document that has one: \<open>needs_update\<close> raises \<open>TypeError\<close> for it (line 134, the defect
  of claim C5), line 120 catches and prints the exception, and \<open>index_file\<close> is not called.
  On the store \<open>indexed\<close>, the run over the root with the edited \<open>fileA.xlsx\<close> and the
  unreadable \<open>fileB.xlsm\<close> leaves \<open>fileA.xlsx\<close> with the entry of its old version; and the
  run over the root whose only document \<open>fileA.xlsx\<close> has become unreadable writes no line
  to the error log.
\<close>

theorem edited_document_is_not_reindexed:
  "excel_files revised_env = [''/root/fileA.xlsx'', ''/root/fileB.xlsm'']
   \<and> load_workbook revised_env ''/root/fileA.xlsx'' = Inr revised_book
   \<and> extraction revised_book = [(''Sheet1'', ''A1'', ''Invoice 456'')]
   \<and> entries_of (committed (update_index revised_env time_now indexed)) ''/root/fileA.xlsx''
       = [(''Sheet1'', ''A1'', ''Invoice 123'')]
   \<and> console (update_index revised_env time_now indexed)
       = [ProcessFileError ''/root/fileA.xlsx'' TypeError,
          IndexFileError ''/root/fileB.xlsm'' WorkbookError]
   \<and> error_log (update_index revised_env time_now indexed)
       = [(''/root/fileB.xlsm'', WorkbookError)]
   \<and> excel_files broken_env = [''/root/fileA.xlsx'']
   \<and> load_workbook broken_env ''/root/fileA.xlsx'' = Inl WorkbookError
   \<and> error_log (update_index broken_env time_now indexed) = []
   \<and> console (update_index broken_env time_now indexed)
       = [ProcessFileError ''/root/fileA.xlsx'' TypeError]"
proof -
  have r: "update_index revised_env time_now indexed =
     indexed\<lparr>error_log := [(''/root/fileB.xlsm'', WorkbookError)],
             console := [ProcessFileError ''/root/fileA.xlsx'' TypeError,
                         IndexFileError ''/root/fileB.xlsm'' WorkbookError],
             progress := [(100, Indexing ''fileB.xlsm''), (100, IndexDone)]\<rparr>"
    by (simp add: run_defs store_defs revised_env_def indexed_def invoice_file_def
          invoice_row_def Let_def enumerate_eq_zip upt_rec prefix_code suffix_to_prefix
          numeral_2_eq_2 [symmetric])
  have b: "update_index broken_env time_now indexed =
     indexed\<lparr>console := [ProcessFileError ''/root/fileA.xlsx'' TypeError],
             progress := [(100, IndexDone)]\<rparr>"
    by (simp add: run_defs store_defs broken_env_def indexed_def invoice_file_def
          invoice_row_def Let_def enumerate_eq_zip upt_rec prefix_code suffix_to_prefix)
  have f: "excel_files revised_env = [''/root/fileA.xlsx'', ''/root/fileB.xlsm'']"
    "excel_files broken_env = [''/root/fileA.xlsx'']"
    by (simp_all add: excel_files_def revised_env_def broken_env_def is_candidate_def
          path_join_def prefix_code suffix_to_prefix)
  have e: "extraction revised_book = [(''Sheet1'', ''A1'', ''Invoice 456'')]"
    by (simp add: extraction_def sheet_entries_def revised_book_def)
  have o: "entries_of (committed indexed) ''/root/fileA.xlsx''
       = [(''Sheet1'', ''A1'', ''Invoice 123'')]"
    by (simp add: entries_of_def rows_of_def entry_def select_file_ids_def indexed_def
          invoice_file_def invoice_row_def)
  show ?thesis
    by (simp add: r b f e o) (simp add: revised_env_def broken_env_def indexed_def)
qed

end
